theory Spec2Isabelle
  imports Main "HOL-Library.Word" "HOL-Library.Monad_Syntax"
begin

unbundle bit_operations_syntax

text \<open>
  A shallow embedding of the symbol table (symtab.cpp), of the learning gate and the
  rule namer of the chunker (ebc.cpp) and of the state-stack listing (decider.cpp).

  Pointers are addresses; the null pointer is \<open>None\<close>.  A function whose source
  can dereference a null or dangling pointer, run into undefined behaviour or loop for
  ever yields an \<open>option\<close>: \<open>None\<close> stands for "no result".
\<close>

type_synonym addr = nat

section \<open>Printing numbers\<close>

text \<open>
  The decimal digits of an unsigned number, as \<^verbatim>\<open>%lu\<close>, \<^verbatim>\<open>%llu\<close> and
  \<^verbatim>\<open>std::to_string\<close> print it.
\<close>

definition digit_char :: "nat \<Rightarrow> char" where
  "digit_char d = ''0123456789'' ! d"

fun std_to_string :: "nat \<Rightarrow> string" where
  "std_to_string n =
     (if n < 10 then [digit_char n] else std_to_string (n div 10) @ [digit_char (n mod 10)])"

declare std_to_string.simps [simp del]

section \<open>Hash functions (symtab.cpp)\<close>

text \<open>
  The loop of \<open>compress\<close>:
  \<^verbatim>\<open>while (h) { result ^= (h & masks_for_n_low_order_bits[num_bits]); h = h >> num_bits; }\<close>
  The table \<open>masks_for_n_low_order_bits\<close> is declared outside the files at hand; its
  entry \<open>n\<close> is the word whose \<open>n\<close> low-order bits are set, \<open>mask n\<close>.  With no
  bits to shift by, a nonzero \<open>h\<close> never changes and the loop does not end; a shift by
  32 bits or more is undefined for a 32-bit operand.  Both are \<open>None\<close>.
\<close>

function compress_loop :: "32 word \<Rightarrow> nat \<Rightarrow> 32 word \<Rightarrow> 32 word option" where
  "compress_loop h num_bits result =
     (if h = 0 then Some result
      else if num_bits = 0 \<or> 32 \<le> num_bits then None
      else compress_loop (drop_bit num_bits h) num_bits (result XOR (h AND mask num_bits)))"
  by pat_completeness auto
termination
proof (relation "measure (\<lambda>(h, num_bits, result). unat h)")
  show "wf (measure (\<lambda>(h, num_bits, result). unat h))"
    by simp
next
  fix h :: "32 word" and num_bits :: nat and result :: "32 word"
  assume h: "h \<noteq> 0" and n: "\<not> (num_bits = 0 \<or> 32 \<le> num_bits)"
  from h have pos: "0 < unat h"
    by (simp add: unat_gt_0)
  from n have "2 \<le> (2::nat) ^ num_bits"
    by (cases num_bits) simp_all
  then have "unat h div 2 ^ num_bits \<le> unat h div 2"
    by (intro div_le_mono2) simp_all
  also have "\<dots> < unat h"
    using pos by simp
  finally have "unat (drop_bit num_bits h) < unat h"
    unfolding unat_drop_bit_eq by (simp add: drop_bit_eq_div)
  then show "((drop_bit num_bits h, num_bits, result XOR (h AND mask num_bits)),
              (h, num_bits, result)) \<in> measure (\<lambda>(h, num_bits, result). unat h)"
    by simp
qed

declare compress_loop.simps [simp del]

definition compress :: "32 word \<Rightarrow> nat \<Rightarrow> 32 word option" where
  "compress h num_bits =
     (let h1 = (if num_bits < 16 then (h AND 0xFFFF) XOR drop_bit 16 h else h);
          h2 = (if num_bits < 8 then (h1 AND 0xFF) XOR drop_bit 8 h1 else h1)
      in compress_loop h2 num_bits 0)"

text \<open>
  A character read as an operand of \<^verbatim>\<open>^\<close>: \<^verbatim>\<open>char\<close> is promoted to \<^verbatim>\<open>int\<close> and
  converted to 32 bits.  \<^verbatim>\<open>char\<close> is taken as signed, as on the x86 targets of the
  kernel, so a byte above 127 is sign-extended.
\<close>

definition char_to_uint32 :: "char \<Rightarrow> 32 word" where
  "char_to_uint32 c = scast (of_nat (of_char c) :: 8 word)"

text \<open>
  \<open>hash_string\<close>: \<^verbatim>\<open>h = 0; while (*s != 0) { h = ((h << 8) | (h >> 24)) ^ (*s); s++; }\<close>
  A name is a C string: its characters up to the terminating zero.
\<close>

fun hash_string_from :: "32 word \<Rightarrow> string \<Rightarrow> 32 word" where
  "hash_string_from h [] = h"
| "hash_string_from h (c # s) =
     hash_string_from ((push_bit 8 h OR drop_bit 24 h) XOR char_to_uint32 c) s"

definition hash_string :: "string \<Rightarrow> 32 word" where
  "hash_string s = hash_string_from 0 s"

definition hash_variable_raw_info :: "string \<Rightarrow> nat \<Rightarrow> 32 word option" where
  "hash_variable_raw_info name num_bits = compress (hash_string name) num_bits"

definition hash_identifier_raw_info :: "char \<Rightarrow> 64 word \<Rightarrow> nat \<Rightarrow> 32 word option" where
  "hash_identifier_raw_info name_letter name_number num_bits =
     compress (ucast name_number XOR push_bit 24 (char_to_uint32 name_letter)) num_bits"

definition hash_sym_constant_raw_info :: "string \<Rightarrow> nat \<Rightarrow> 32 word option" where
  "hash_sym_constant_raw_info name num_bits = compress (hash_string name) num_bits"

definition hash_int_constant_raw_info :: "64 word \<Rightarrow> nat \<Rightarrow> 32 word option" where
  "hash_int_constant_raw_info v num_bits = compress (ucast v) num_bits"

text \<open>
  A \<^verbatim>\<open>double\<close> is its 64 bits (sign, 11 bits of exponent, 52 bits of fraction).
  \<open>double_eq\<close> is the comparison \<^verbatim>\<open>==\<close> of two doubles: a NaN equals nothing, not
  even itself, the two zeros are equal, and every other value equals only itself.
\<close>

definition double_is_nan :: "64 word \<Rightarrow> bool" where
  "double_is_nan v = (drop_bit 52 v AND mask 11 = mask 11 \<and> v AND mask 52 \<noteq> 0)"

definition double_is_zero :: "64 word \<Rightarrow> bool" where
  "double_is_zero v = (v AND mask 63 = 0)"

definition double_eq :: "64 word \<Rightarrow> 64 word \<Rightarrow> bool" where
  "double_eq a b =
     (\<not> double_is_nan a \<and> \<not> double_is_nan b \<and> (a = b \<or> (double_is_zero a \<and> double_is_zero b)))"

text \<open>
  \<^verbatim>\<open>static_cast<uint32_t>(value)\<close> of a double truncates towards zero.  C++ defines it
  for values whose truncation fits 32 unsigned bits only; for the others the model takes
  what the x86-64 compilers emit: the truncation to a signed 64-bit integer (the
  "integer indefinite" \<open>2\<^sup>6\<^sup>3\<close> when that does not fit either, as for an infinity and a
  NaN), cut to its low 32 bits.
\<close>

definition double_to_int64 :: "64 word \<Rightarrow> 64 word" where
  "double_to_int64 v =
     (let e = unat (drop_bit 52 v AND mask 11);
          m = (v AND mask 52) OR push_bit 52 1;
          magnitude = (if e \<le> 1075 then drop_bit (1075 - e) m else push_bit (e - 1075) m)
      in if e < 1023 then 0
         else if 1086 \<le> e then push_bit 63 1
         else if bit v 63 then - magnitude else magnitude)"

definition double_to_uint32 :: "64 word \<Rightarrow> 32 word" where
  "double_to_uint32 v = ucast (double_to_int64 v)"

definition hash_float_constant_raw_info :: "64 word \<Rightarrow> nat \<Rightarrow> 32 word option" where
  "hash_float_constant_raw_info v num_bits = compress (double_to_uint32 v) num_bits"

section \<open>Symbols (symtab.cpp)\<close>

text \<open>
  A symbol is a union of five structures behind a common header.  The header keeps the
  reference count, the hash id and the transitive-closure number; of the other header and
  identifier fields, which \<open>make_new_identifier\<close> and its siblings set to \<open>NIL\<close>, zero
  or false, only those a function below reads are kept.  \<open>smem_lti\<close> is \<open>NIL\<close> (zero)
  for an identifier that is not long-term.
\<close>

datatype symbol_type =
    VARIABLE_SYMBOL_TYPE
  | IDENTIFIER_SYMBOL_TYPE
  | SYM_CONSTANT_SYMBOL_TYPE
  | INT_CONSTANT_SYMBOL_TYPE
  | FLOAT_CONSTANT_SYMBOL_TYPE

record variable_struct =
  var_name :: string
  gensym_number :: "64 word"

record identifier_struct =
  name_letter :: char
  name_number :: "64 word"
  level :: nat
  promotion_level :: nat
  smem_lti :: "64 word"

record sym_constant_struct =
  sc_name :: string

datatype symbol_union =
    VAR variable_struct
  | ID identifier_struct
  | SC sym_constant_struct
  | IC "64 word"
  | FC "64 word"

record symbol =
  reference_count :: "64 word"
  hash_id :: "32 word"
  tc_num :: "64 word"
  un :: symbol_union

definition symbol_type :: "symbol \<Rightarrow> symbol_type" where
  "symbol_type item =
     (case un item of
        VAR _ \<Rightarrow> VARIABLE_SYMBOL_TYPE
      | ID _ \<Rightarrow> IDENTIFIER_SYMBOL_TYPE
      | SC _ \<Rightarrow> SYM_CONSTANT_SYMBOL_TYPE
      | IC _ \<Rightarrow> INT_CONSTANT_SYMBOL_TYPE
      | FC _ \<Rightarrow> FLOAT_CONSTANT_SYMBOL_TYPE)"

text \<open>
  The hash functions of the table entries, the callbacks of the five tables.  Each casts
  the entry to its own structure; on an entry of another kind that read is undefined.
\<close>

definition hash_variable :: "symbol \<Rightarrow> nat \<Rightarrow> 32 word option" where
  "hash_variable item num_bits =
     (case un item of VAR v \<Rightarrow> compress (hash_string (var_name v)) num_bits | _ \<Rightarrow> None)"

definition hash_identifier :: "symbol \<Rightarrow> nat \<Rightarrow> 32 word option" where
  "hash_identifier item num_bits =
     (case un item of
        ID i \<Rightarrow> compress (ucast (name_number i) XOR push_bit 24 (char_to_uint32 (name_letter i))) num_bits
      | _ \<Rightarrow> None)"

definition hash_sym_constant :: "symbol \<Rightarrow> nat \<Rightarrow> 32 word option" where
  "hash_sym_constant item num_bits =
     (case un item of SC c \<Rightarrow> compress (hash_string (sc_name c)) num_bits | _ \<Rightarrow> None)"

definition hash_int_constant :: "symbol \<Rightarrow> nat \<Rightarrow> 32 word option" where
  "hash_int_constant item num_bits =
     (case un item of IC v \<Rightarrow> compress (ucast v) num_bits | _ \<Rightarrow> None)"

definition hash_float_constant :: "symbol \<Rightarrow> nat \<Rightarrow> 32 word option" where
  "hash_float_constant item num_bits =
     (case un item of FC v \<Rightarrow> compress (double_to_uint32 v) num_bits | _ \<Rightarrow> None)"

section \<open>Hash tables and memory pools\<close>

text \<open>
  Modelled from the spec: the resizable hash table (\<open>make_hash_table\<close>,
  \<open>add_to_hash_table\<close>, \<open>remove_from_hash_table\<close>, \<open>do_for_all_items_in_hash_table\<close>) and
  the memory pool (\<open>allocate_with_pool\<close>, \<open>free_with_pool\<close>) are code of the kernel that
  is not among the files at hand; symtab.cpp only calls them and reads the fields
  \<open>count\<close>, \<open>log2size\<close> and \<open>buckets\<close>.  They follow sections 4.1 and 4.2 of the
  specification: a table is open-chained with a power-of-two number of buckets, an insert
  counts the item and resizes once the count exceeds twice the capacity, a removal unlinks
  the item from its chain, and the iteration visits every item until the visitor asks to
  stop.  The chain link lives in the item; a chain is the list of the addresses linked.
  An item is always hashed by the table's own hash function at the table's current
  width, which is where the \<open>find\<close> functions of symtab.cpp look for it.
\<close>

record hash_table =
  count :: nat
  log2size :: nat
  buckets :: "addr list list"

text \<open>
  \<open>init_symbol_tables\<close> asks for a minimum \<open>log2size\<close> of 0.  A table of one bucket
  would hash with zero bits, on which \<open>compress\<close> does not return; the model gives a
  table at least two buckets.
\<close>

definition make_hash_table :: "nat \<Rightarrow> hash_table" where
  "make_hash_table minimum_log2size =
     (let l = max 1 minimum_log2size
      in \<lparr>count = 0, log2size = l, buckets = replicate (2 ^ l) []\<rparr>)"

definition hash_item ::
  "(symbol \<Rightarrow> nat \<Rightarrow> 32 word option) \<Rightarrow> (addr \<Rightarrow> symbol option) \<Rightarrow> addr \<Rightarrow> nat \<Rightarrow> nat option" where
  "hash_item h mem item num_bits =
     do { sy \<leftarrow> mem item; hash_value \<leftarrow> h sy num_bits; Some (unat hash_value) }"

fun rehash ::
  "(symbol \<Rightarrow> nat \<Rightarrow> 32 word option) \<Rightarrow> (addr \<Rightarrow> symbol option) \<Rightarrow> nat \<Rightarrow> addr list
     \<Rightarrow> addr list list \<Rightarrow> addr list list option" where
  "rehash h mem new_log2size [] bs = Some bs"
| "rehash h mem new_log2size (item # items) bs =
     do { i \<leftarrow> hash_item h mem item new_log2size;
          if i < length bs then rehash h mem new_log2size items (bs[i := item # bs ! i])
          else None }"

definition resize_hash_table ::
  "(symbol \<Rightarrow> nat \<Rightarrow> 32 word option) \<Rightarrow> (addr \<Rightarrow> symbol option) \<Rightarrow> hash_table \<Rightarrow> nat
     \<Rightarrow> hash_table option" where
  "resize_hash_table h mem ht new_log2size =
     do { bs \<leftarrow> rehash h mem new_log2size (concat (buckets ht)) (replicate (2 ^ new_log2size) []);
          Some (ht\<lparr>log2size := new_log2size, buckets := bs\<rparr>) }"

definition add_to_hash_table ::
  "(symbol \<Rightarrow> nat \<Rightarrow> 32 word option) \<Rightarrow> (addr \<Rightarrow> symbol option) \<Rightarrow> hash_table \<Rightarrow> addr
     \<Rightarrow> hash_table option" where
  "add_to_hash_table h mem ht item =
     do { let counted = ht\<lparr>count := count ht + 1\<rparr>;
          ht1 \<leftarrow> (if count counted > 2 * 2 ^ log2size counted
                   then resize_hash_table h mem counted (log2size counted + 1)
                   else Some counted);
          i \<leftarrow> hash_item h mem item (log2size ht1);
          if i < length (buckets ht1)
          then Some (ht1\<lparr>buckets := (buckets ht1)[i := item # buckets ht1 ! i]\<rparr>)
          else None }"

text \<open>Unlinking an item that is not in its chain walks off the end of the chain.\<close>

definition remove_from_hash_table ::
  "(symbol \<Rightarrow> nat \<Rightarrow> 32 word option) \<Rightarrow> (addr \<Rightarrow> symbol option) \<Rightarrow> hash_table \<Rightarrow> addr
     \<Rightarrow> hash_table option" where
  "remove_from_hash_table h mem ht item =
     do { i \<leftarrow> hash_item h mem item (log2size ht);
          if i < length (buckets ht) \<and> item \<in> set (buckets ht ! i)
          then Some (ht\<lparr>count := count ht - 1,
                        buckets := (buckets ht)[i := remove1 item (buckets ht ! i)]\<rparr>)
          else None }"

text \<open>
  The visitor gets the item and the user data; it returns whether to stop, and the user
  data as it leaves them.
\<close>

fun do_for_all_items :: "(addr \<Rightarrow> 'u \<Rightarrow> (bool \<times> 'u) option) \<Rightarrow> addr list \<Rightarrow> 'u \<Rightarrow> 'u option" where
  "do_for_all_items f [] u = Some u"
| "do_for_all_items f (item # items) u =
     do { (stop, u') \<leftarrow> f item u;
          if stop then Some u' else do_for_all_items f items u' }"

definition do_for_all_items_in_hash_table ::
  "hash_table \<Rightarrow> (addr \<Rightarrow> 'u \<Rightarrow> (bool \<times> 'u) option) \<Rightarrow> 'u \<Rightarrow> 'u option" where
  "do_for_all_items_in_hash_table ht f u = do_for_all_items f (concat (buckets ht)) u"

text \<open>
  A pool hands out the head of its free list; when the list is empty it grows by one
  record taken at the next unused address.  Freeing puts the record at the head of the
  free list, so the next allocation reuses it.
\<close>

record memory_pool =
  free_list :: "addr list"

definition init_memory_pool :: memory_pool where
  "init_memory_pool = \<lparr>free_list = []\<rparr>"

definition allocate_with_pool :: "memory_pool \<Rightarrow> addr \<Rightarrow> addr \<times> memory_pool \<times> addr" where
  "allocate_with_pool p next_unused =
     (case free_list p of
        [] \<Rightarrow> (next_unused, p, next_unused + 1)
      | a # rest \<Rightarrow> (a, p\<lparr>free_list := rest\<rparr>, next_unused))"

definition free_with_pool :: "memory_pool \<Rightarrow> addr \<Rightarrow> memory_pool" where
  "free_with_pool p a = p\<lparr>free_list := a # free_list p\<rparr>"

section \<open>The agent's symbol table state\<close>

text \<open>
  The fields of the agent that symtab.cpp touches.  \<open>symbols\<close> is the memory holding the
  symbol records; \<open>next_unused\<close> is the first address no pool has handed out yet.
  \<open>printed\<close> collects what \<open>print\<close> and \<open>xml_generate_warning\<close> are given,
  \<open>leaked_ids_txt\<close> is the content of the file \<^verbatim>\<open>leaked-ids.txt\<close> when it exists, and
  \<open>fopen_succeeds\<close> says whether the file system lets the file be opened for writing.
  \<open>smem_connected\<close> is the status of the semantic memory database and
  \<open>smem_id_resets\<close> counts the calls of \<open>smem_reset_id_counters\<close>.
\<close>

record agent =
  symbols :: "addr \<Rightarrow> symbol option"
  next_unused :: addr
  variable_hash_table :: hash_table
  identifier_hash_table :: hash_table
  sym_constant_hash_table :: hash_table
  int_constant_hash_table :: hash_table
  float_constant_hash_table :: hash_table
  variable_pool :: memory_pool
  identifier_pool :: memory_pool
  sym_constant_pool :: memory_pool
  int_constant_pool :: memory_pool
  float_constant_pool :: memory_pool
  current_symbol_hash_id :: "32 word"
  id_counter :: "64 word list"
  smem_connected :: bool
  smem_id_resets :: nat
  printed :: "string list"
  fopen_succeeds :: bool
  leaked_ids_txt :: "string option"

section \<open>Reference counts and deallocation\<close>

text \<open>\<open>get_next_symbol_hash_id\<close>: \<^verbatim>\<open>return (thisAgent->current_symbol_hash_id += 137);\<close>\<close>

definition get_next_symbol_hash_id :: "agent \<Rightarrow> 32 word \<times> agent" where
  "get_next_symbol_hash_id s =
     (current_symbol_hash_id s + 137,
      s\<lparr>current_symbol_hash_id := current_symbol_hash_id s + 137\<rparr>)"

text \<open>
  \<open>deallocate_symbol\<close> switches on the kind of the symbol, removes it from the table of
  its kind and gives its record back to the pool.  The strings of a variable and of a
  symbolic constant are freed with the record; in the model they are part of it.  The
  default branch of the switch (a fatal error on a tag that is no symbol kind) has no
  counterpart, since every record of the model carries one of the five kinds.  After the
  record is freed, its address holds no symbol.
\<close>

definition deallocate_symbol :: "agent \<Rightarrow> addr \<Rightarrow> agent option" where
  "deallocate_symbol s a =
     do { sy \<leftarrow> symbols s a;
          case symbol_type sy of
            VARIABLE_SYMBOL_TYPE \<Rightarrow>
              do { ht \<leftarrow> remove_from_hash_table hash_variable (symbols s) (variable_hash_table s) a;
                   Some (s\<lparr>variable_hash_table := ht,
                            variable_pool := free_with_pool (variable_pool s) a,
                            symbols := (symbols s)(a := None)\<rparr>) }
          | IDENTIFIER_SYMBOL_TYPE \<Rightarrow>
              do { ht \<leftarrow> remove_from_hash_table hash_identifier (symbols s) (identifier_hash_table s) a;
                   Some (s\<lparr>identifier_hash_table := ht,
                            identifier_pool := free_with_pool (identifier_pool s) a,
                            symbols := (symbols s)(a := None)\<rparr>) }
          | SYM_CONSTANT_SYMBOL_TYPE \<Rightarrow>
              do { ht \<leftarrow> remove_from_hash_table hash_sym_constant (symbols s) (sym_constant_hash_table s) a;
                   Some (s\<lparr>sym_constant_hash_table := ht,
                            sym_constant_pool := free_with_pool (sym_constant_pool s) a,
                            symbols := (symbols s)(a := None)\<rparr>) }
          | INT_CONSTANT_SYMBOL_TYPE \<Rightarrow>
              do { ht \<leftarrow> remove_from_hash_table hash_int_constant (symbols s) (int_constant_hash_table s) a;
                   Some (s\<lparr>int_constant_hash_table := ht,
                            int_constant_pool := free_with_pool (int_constant_pool s) a,
                            symbols := (symbols s)(a := None)\<rparr>) }
          | FLOAT_CONSTANT_SYMBOL_TYPE \<Rightarrow>
              do { ht \<leftarrow> remove_from_hash_table hash_float_constant (symbols s) (float_constant_hash_table s) a;
                   Some (s\<lparr>float_constant_hash_table := ht,
                            float_constant_pool := free_with_pool (float_constant_pool s) a,
                            symbols := (symbols s)(a := None)\<rparr>) } }"

text \<open>
  Modelled from the spec: \<open>symbol_add_ref\<close> and \<open>symbol_remove_ref\<close> are declared in
  the header of the symbol table, which is not among the files at hand.  Section 4.3:
  \<open>add_ref\<close> and \<open>release\<close> maintain the reference count, and a release that drops the
  count to zero deallocates the symbol.  The count is an unsigned 64-bit number.
\<close>

definition symbol_add_ref :: "agent \<Rightarrow> addr \<Rightarrow> agent option" where
  "symbol_add_ref s a =
     do { sy \<leftarrow> symbols s a;
          Some (s\<lparr>symbols := (symbols s)(a \<mapsto> sy\<lparr>reference_count := reference_count sy + 1\<rparr>)\<rparr>) }"

definition symbol_remove_ref :: "agent \<Rightarrow> addr \<Rightarrow> agent option" where
  "symbol_remove_ref s a =
     do { sy \<leftarrow> symbols s a;
          let s1 = s\<lparr>symbols := (symbols s)(a \<mapsto> sy\<lparr>reference_count := reference_count sy - 1\<rparr>)\<rparr>;
          if reference_count sy - 1 = 0 then deallocate_symbol s1 a else Some s1 }"

section \<open>Lookup and creation of symbols\<close>

text \<open>
  The loop shared by the five \<open>find\<close> functions:
  \<^verbatim>\<open>for ( ; sym!=NIL; sym = sym->common.next_in_hash_table) { if (...) return sym; } return NIL;\<close>
  The test reads the fields of one kind of symbol; \<open>None\<close> from the test is a read of
  an entry of another kind.  The result \<open>Some None\<close> is \<open>NIL\<close>.
\<close>

fun find_in_chain ::
  "(symbol \<Rightarrow> bool option) \<Rightarrow> (addr \<Rightarrow> symbol option) \<Rightarrow> addr list \<Rightarrow> addr option option" where
  "find_in_chain same mem [] = Some None"
| "find_in_chain same mem (a # chain) =
     do { sy \<leftarrow> mem a;
          found \<leftarrow> same sy;
          if found then Some (Some a) else find_in_chain same mem chain }"

definition bucket :: "hash_table \<Rightarrow> 32 word \<Rightarrow> addr list option" where
  "bucket ht hash_value =
     (if unat hash_value < length (buckets ht) then Some (buckets ht ! unat hash_value) else None)"

definition find_variable :: "agent \<Rightarrow> string \<Rightarrow> addr option option" where
  "find_variable s name =
     do { hash_value \<leftarrow> hash_variable_raw_info name (log2size (variable_hash_table s));
          chain \<leftarrow> bucket (variable_hash_table s) hash_value;
          find_in_chain (\<lambda>sy. case un sy of VAR v \<Rightarrow> Some (var_name v = name) | _ \<Rightarrow> None)
            (symbols s) chain }"

definition find_identifier :: "agent \<Rightarrow> char \<Rightarrow> 64 word \<Rightarrow> addr option option" where
  "find_identifier s letter number =
     do { hash_value \<leftarrow> hash_identifier_raw_info letter number (log2size (identifier_hash_table s));
          chain \<leftarrow> bucket (identifier_hash_table s) hash_value;
          find_in_chain
            (\<lambda>sy. case un sy of ID i \<Rightarrow> Some (letter = name_letter i \<and> number = name_number i) | _ \<Rightarrow> None)
            (symbols s) chain }"

definition find_sym_constant :: "agent \<Rightarrow> string \<Rightarrow> addr option option" where
  "find_sym_constant s name =
     do { hash_value \<leftarrow> hash_sym_constant_raw_info name (log2size (sym_constant_hash_table s));
          chain \<leftarrow> bucket (sym_constant_hash_table s) hash_value;
          find_in_chain (\<lambda>sy. case un sy of SC c \<Rightarrow> Some (sc_name c = name) | _ \<Rightarrow> None)
            (symbols s) chain }"

definition find_int_constant :: "agent \<Rightarrow> 64 word \<Rightarrow> addr option option" where
  "find_int_constant s v =
     do { hash_value \<leftarrow> hash_int_constant_raw_info v (log2size (int_constant_hash_table s));
          chain \<leftarrow> bucket (int_constant_hash_table s) hash_value;
          find_in_chain (\<lambda>sy. case un sy of IC w \<Rightarrow> Some (v = w) | _ \<Rightarrow> None)
            (symbols s) chain }"

definition find_float_constant :: "agent \<Rightarrow> 64 word \<Rightarrow> addr option option" where
  "find_float_constant s v =
     do { hash_value \<leftarrow> hash_float_constant_raw_info v (log2size (float_constant_hash_table s));
          chain \<leftarrow> bucket (float_constant_hash_table s) hash_value;
          find_in_chain (\<lambda>sy. case un sy of FC w \<Rightarrow> Some (double_eq v w) | _ \<Rightarrow> None)
            (symbols s) chain }"

text \<open>
  The four \<open>make\<close> functions of the interned kinds look the key up; a symbol found gets
  one more reference and is returned, and otherwise a record is allocated, filled in with
  a reference count of zero, given its first reference and added to the table.
\<close>

definition make_variable :: "agent \<Rightarrow> string \<Rightarrow> (addr \<times> agent) option" where
  "make_variable s name =
     do { found \<leftarrow> find_variable s name;
          case found of
            Some a \<Rightarrow> do { s' \<leftarrow> symbol_add_ref s a; Some (a, s') }
          | None \<Rightarrow>
              do { let (a, pool, unused) = allocate_with_pool (variable_pool s) (next_unused s);
                   let s1 = s\<lparr>variable_pool := pool, next_unused := unused\<rparr>;
                   let (hid, s2) = get_next_symbol_hash_id s1;
                   let s3 = s2\<lparr>symbols := (symbols s2)(a \<mapsto>
                              \<lparr>reference_count = 0, hash_id = hid, tc_num = 0,
                               un = VAR \<lparr>var_name = name, gensym_number = 0\<rparr>\<rparr>)\<rparr>;
                   s4 \<leftarrow> symbol_add_ref s3 a;
                   ht \<leftarrow> add_to_hash_table hash_variable (symbols s4) (variable_hash_table s4) a;
                   Some (a, s4\<lparr>variable_hash_table := ht\<rparr>) } }"

text \<open>
  \<^verbatim>\<open>isalpha\<close>, \<^verbatim>\<open>islower\<close> and \<^verbatim>\<open>toupper\<close> in the C locale.
\<close>

definition islower :: "char \<Rightarrow> bool" where
  "islower c = (97 \<le> (of_char c :: nat) \<and> (of_char c :: nat) \<le> 122)"

definition isupper :: "char \<Rightarrow> bool" where
  "isupper c = (65 \<le> (of_char c :: nat) \<and> (of_char c :: nat) \<le> 90)"

definition isalpha :: "char \<Rightarrow> bool" where
  "isalpha c = (isupper c \<or> islower c)"

definition toupper :: "char \<Rightarrow> char" where
  "toupper c = (if islower c then char_of ((of_char c :: nat) - 32) else c)"

text \<open>
  \<open>make_new_identifier\<close> does no lookup.  The number argument \<open>NIL\<close> (zero) stands for
  "no number given".  The counters are an array of 26 entries indexed by
  \<^verbatim>\<open>name_letter - 'A'\<close>; an index outside the array has no result.
\<close>

definition normalize_letter :: "char \<Rightarrow> char" where
  "normalize_letter c =
     (if isalpha c
      then (if islower c then toupper c else c)
      else CHR ''I'')"

definition counter_index :: "char \<Rightarrow> nat" where
  "counter_index c = (of_char c :: nat) - (of_char CHR ''A'' :: nat)"

definition make_new_identifier :: "agent \<Rightarrow> char \<Rightarrow> nat \<Rightarrow> 64 word \<Rightarrow> (addr \<times> agent) option" where
  "make_new_identifier s letter goal_level number =
     do { let upper = normalize_letter letter;
          let (a, pool, unused) = allocate_with_pool (identifier_pool s) (next_unused s);
          let s1 = s\<lparr>identifier_pool := pool, next_unused := unused\<rparr>;
          let (hid, s2) = get_next_symbol_hash_id s1;
          let i = counter_index upper;
          if (of_char upper :: nat) < (of_char CHR ''A'' :: nat) \<or> length (id_counter s2) \<le> i
          then None
          else
            do { let current_number = id_counter s2 ! i;
                 let (numbered, counters) =
                       (if number = 0 then (current_number, (id_counter s2)[i := current_number + 1])
                        else if number \<ge> current_number then (number, (id_counter s2)[i := number + 1])
                        else (number, id_counter s2));
                 let s3 = s2\<lparr>id_counter := counters,
                              symbols := (symbols s2)(a \<mapsto>
                                \<lparr>reference_count = 0, hash_id = hid, tc_num = 0,
                                 un = ID \<lparr>name_letter = upper, name_number = numbered,
                                          level = goal_level, promotion_level = goal_level,
                                          smem_lti = 0\<rparr>\<rparr>)\<rparr>;
                 s4 \<leftarrow> symbol_add_ref s3 a;
                 ht \<leftarrow> add_to_hash_table hash_identifier (symbols s4) (identifier_hash_table s4) a;
                 Some (a, s4\<lparr>identifier_hash_table := ht\<rparr>) } }"

definition make_sym_constant :: "agent \<Rightarrow> string \<Rightarrow> (addr \<times> agent) option" where
  "make_sym_constant s name =
     do { found \<leftarrow> find_sym_constant s name;
          case found of
            Some a \<Rightarrow> do { s' \<leftarrow> symbol_add_ref s a; Some (a, s') }
          | None \<Rightarrow>
              do { let (a, pool, unused) = allocate_with_pool (sym_constant_pool s) (next_unused s);
                   let s1 = s\<lparr>sym_constant_pool := pool, next_unused := unused\<rparr>;
                   let (hid, s2) = get_next_symbol_hash_id s1;
                   let s3 = s2\<lparr>symbols := (symbols s2)(a \<mapsto>
                              \<lparr>reference_count = 0, hash_id = hid, tc_num = 0,
                               un = SC \<lparr>sc_name = name\<rparr>\<rparr>)\<rparr>;
                   s4 \<leftarrow> symbol_add_ref s3 a;
                   ht \<leftarrow> add_to_hash_table hash_sym_constant (symbols s4) (sym_constant_hash_table s4) a;
                   Some (a, s4\<lparr>sym_constant_hash_table := ht\<rparr>) } }"

definition make_int_constant :: "agent \<Rightarrow> 64 word \<Rightarrow> (addr \<times> agent) option" where
  "make_int_constant s v =
     do { found \<leftarrow> find_int_constant s v;
          case found of
            Some a \<Rightarrow> do { s' \<leftarrow> symbol_add_ref s a; Some (a, s') }
          | None \<Rightarrow>
              do { let (a, pool, unused) = allocate_with_pool (int_constant_pool s) (next_unused s);
                   let s1 = s\<lparr>int_constant_pool := pool, next_unused := unused\<rparr>;
                   let (hid, s2) = get_next_symbol_hash_id s1;
                   let s3 = s2\<lparr>symbols := (symbols s2)(a \<mapsto>
                              \<lparr>reference_count = 0, hash_id = hid, tc_num = 0,
                               un = IC v\<rparr>)\<rparr>;
                   s4 \<leftarrow> symbol_add_ref s3 a;
                   ht \<leftarrow> add_to_hash_table hash_int_constant (symbols s4) (int_constant_hash_table s4) a;
                   Some (a, s4\<lparr>int_constant_hash_table := ht\<rparr>) } }"

definition make_float_constant :: "agent \<Rightarrow> 64 word \<Rightarrow> (addr \<times> agent) option" where
  "make_float_constant s v =
     do { found \<leftarrow> find_float_constant s v;
          case found of
            Some a \<Rightarrow> do { s' \<leftarrow> symbol_add_ref s a; Some (a, s') }
          | None \<Rightarrow>
              do { let (a, pool, unused) = allocate_with_pool (float_constant_pool s) (next_unused s);
                   let s1 = s\<lparr>float_constant_pool := pool, next_unused := unused\<rparr>;
                   let (hid, s2) = get_next_symbol_hash_id s1;
                   let s3 = s2\<lparr>symbols := (symbols s2)(a \<mapsto>
                              \<lparr>reference_count = 0, hash_id = hid, tc_num = 0,
                               un = FC v\<rparr>)\<rparr>;
                   s4 \<leftarrow> symbol_add_ref s3 a;
                   ht \<leftarrow> add_to_hash_table hash_float_constant (symbols s4) (float_constant_hash_table s4) a;
                   Some (a, s4\<lparr>float_constant_hash_table := ht\<rparr>) } }"

section \<open>Resetting the identifier counters\<close>

text \<open>
  Modelled from the spec: \<open>smem_count_ltis\<close>, the visitor that counts the long-term
  identifiers, belongs to semantic memory.  Section 4.3: a long-term identifier is one
  whose \<open>smem_lti\<close> back-reference is set.  The user data are the counter.
\<close>

definition smem_count_ltis :: "(addr \<Rightarrow> symbol option) \<Rightarrow> addr \<Rightarrow> 64 word \<Rightarrow> (bool \<times> 64 word) option" where
  "smem_count_ltis mem item ltis =
     do { sy \<leftarrow> mem item;
          case un sy of
            ID i \<Rightarrow> Some (False, if smem_lti i \<noteq> 0 then ltis + 1 else ltis)
          | _ \<Rightarrow> None }"

text \<open>
  The line \<open>print_identifier_ref_info\<close> formats into a buffer of 256 bytes:
  \<^verbatim>\<open>"\t@%c%llu --> %llu\n"\<close> for a long-term identifier and \<^verbatim>\<open>"\t%c%llu --> %llu\n"\<close>
  for any other.
\<close>

definition ref_info_line :: "symbol \<Rightarrow> identifier_struct \<Rightarrow> string" where
  "ref_info_line sy i =
     take 255
       ([CHR 0x09] @ (if smem_lti i \<noteq> 0 then ''@'' else [])
        @ [name_letter i] @ std_to_string (unat (name_number i))
        @ '' --> '' @ std_to_string (unat (reference_count sy)) @ [CHR 0x0A])"

text \<open>
  \<open>print_identifier_ref_info\<close>.  The user data of the source are the file, or null; in
  the model they are what has been printed so far and the content of the file so far,
  and \<open>to_file\<close> says whether a file was passed.
\<close>

definition print_identifier_ref_info ::
  "(addr \<Rightarrow> symbol option) \<Rightarrow> bool \<Rightarrow> addr \<Rightarrow> string list \<times> string
     \<Rightarrow> (bool \<times> string list \<times> string) option" where
  "print_identifier_ref_info mem to_file item u =
     do { sy \<leftarrow> mem item;
          case un sy of
            ID i \<Rightarrow>
              (if reference_count sy > 0
               then Some (False, fst u @ [ref_info_line sy i],
                          if to_file then snd u @ ref_info_line sy i else snd u)
               else Some (False, u))
          | _ \<Rightarrow>
              Some (True, fst u @ [[CHR 0x09] @ ''ERROR: HASHTABLE ITEM IS NOT AN IDENTIFIER!'' @ [CHR 0x0A]],
                    snd u) }"

definition leak_warning :: "string list" where
  "leak_warning =
     [''Internal warning:  wanted to reset identifier generator numbers, but'' @ [CHR 0x0A],
      ''there are still some identifiers allocated.  (Probably a memory leak.)'' @ [CHR 0x0A],
      ''(Leaving identifier numbers alone.)'' @ [CHR 0x0A]]"

text \<open>
  \<open>reset_id_counters\<close>.  Modelled from the spec: of \<open>smem_reset_id_counters\<close>, which
  belongs to semantic memory, the specification says that the long-term identifier
  subsystem is notified; the model counts the notification.
\<close>

definition reset_id_counters :: "agent \<Rightarrow> (bool \<times> agent) option" where
  "reset_id_counters s =
     do { leaked \<leftarrow>
            (if count (identifier_hash_table s) \<noteq> 0
             then do { ltis \<leftarrow> do_for_all_items_in_hash_table (identifier_hash_table s)
                                  (smem_count_ltis (symbols s)) 0;
                       Some ((of_nat (count (identifier_hash_table s)) :: 64 word) \<noteq> ltis) }
             else Some False);
          if leaked
          then do { (out, _) \<leftarrow> do_for_all_items_in_hash_table (identifier_hash_table s)
                                  (print_identifier_ref_info (symbols s) False)
                                  (printed s @ leak_warning, []);
                    if fopen_succeeds s
                    then do { (out', ids) \<leftarrow> do_for_all_items_in_hash_table (identifier_hash_table s)
                                             (print_identifier_ref_info (symbols s) True) (out, []);
                              Some (False, s\<lparr>printed := out', leaked_ids_txt := Some ids\<rparr>) }
                    else Some (False, s\<lparr>printed := out\<rparr>) }
          else Some (True, s\<lparr>id_counter := replicate 26 1,
                               smem_id_resets := (if smem_connected s then smem_id_resets s + 1
                                                  else smem_id_resets s)\<rparr>) }"

definition init_symbol_tables :: "agent \<Rightarrow> agent option" where
  "init_symbol_tables s =
     do { (_, s') \<leftarrow> reset_id_counters
            (s\<lparr>variable_hash_table := make_hash_table 0,
               identifier_hash_table := make_hash_table 0,
               sym_constant_hash_table := make_hash_table 0,
               int_constant_hash_table := make_hash_table 0,
               float_constant_hash_table := make_hash_table 0,
               variable_pool := init_memory_pool,
               identifier_pool := init_memory_pool,
               sym_constant_pool := init_memory_pool,
               int_constant_pool := init_memory_pool,
               float_constant_pool := init_memory_pool\<rparr>);
          Some s' }"

text \<open>
  An agent before \<open>init_symbol_tables\<close>: no symbol in memory, nothing printed, no file,
  a file system that lets files be opened and no semantic memory database connected.
\<close>

definition blank_agent :: agent where
  "blank_agent =
     \<lparr>symbols = (\<lambda>_. None), next_unused = 0,
      variable_hash_table = make_hash_table 0, identifier_hash_table = make_hash_table 0,
      sym_constant_hash_table = make_hash_table 0, int_constant_hash_table = make_hash_table 0,
      float_constant_hash_table = make_hash_table 0,
      variable_pool = init_memory_pool, identifier_pool = init_memory_pool,
      sym_constant_pool = init_memory_pool, int_constant_pool = init_memory_pool,
      float_constant_pool = init_memory_pool,
      current_symbol_hash_id = 0, id_counter = replicate 26 0,
      smem_connected = False, smem_id_resets = 0, printed = [], fopen_succeeds = True,
      leaked_ids_txt = None\<rparr>"

section \<open>Generated names\<close>

text \<open>
  \<open>generate_new_sym_constant\<close>: the name is printed into a buffer of 2000 bytes, the
  last of which is set to zero, so at most 1999 characters of it survive.
  \<^verbatim>\<open>while (TRUE) { SNPRINTF (name, 2000, "%s%lu", prefix, (*counter)++);
                   name[1999] = 0; if (! find_sym_constant (thisAgent, name)) break; }
  New = make_sym_constant (thisAgent, name);\<close>
  The result is the symbol, the counter as the loop leaves it, and the agent.
\<close>

partial_function (option) generate_new_sym_constant ::
  "agent \<Rightarrow> string \<Rightarrow> 64 word \<Rightarrow> (addr \<times> 64 word \<times> agent) option" where
  "generate_new_sym_constant s prefix counter =
     (case find_sym_constant s (take 1999 (prefix @ std_to_string (unat counter))) of
        None \<Rightarrow> None
      | Some (Some _) \<Rightarrow> generate_new_sym_constant s prefix (counter + 1)
      | Some None \<Rightarrow>
          (case make_sym_constant s (take 1999 (prefix @ std_to_string (unat counter))) of
             None \<Rightarrow> None
           | Some (a, s') \<Rightarrow> Some (a, counter + 1, s')))"

text \<open>The name the loop prints for a value of the counter, as the buffer holds it.\<close>

definition numbered_name :: "string \<Rightarrow> 64 word \<Rightarrow> string" where
  "numbered_name prefix counter = take 1999 (prefix @ std_to_string (unat counter))"

section \<open>Well-formed hash tables\<close>

text \<open>
  A table is well formed for a hash function and a memory when it has between 2 and
  \<open>2\<^sup>3\<^sup>1\<close> buckets, as many as its \<open>log2size\<close> says, its count is the number of its
  items, no item is linked twice, and every item sits in the chain of the bucket its hash
  selects at the table's width.
\<close>

definition table_items :: "hash_table \<Rightarrow> addr list" where
  "table_items ht = concat (buckets ht)"

definition wf_hash_table ::
  "(symbol \<Rightarrow> nat \<Rightarrow> 32 word option) \<Rightarrow> (addr \<Rightarrow> symbol option) \<Rightarrow> hash_table \<Rightarrow> bool" where
  "wf_hash_table h mem ht =
     (1 \<le> log2size ht \<and> log2size ht < 32 \<and> length (buckets ht) = 2 ^ log2size ht \<and>
      count ht = length (table_items ht) \<and> distinct (table_items ht) \<and>
      (\<forall>i < length (buckets ht). \<forall>a \<in> set (buckets ht ! i).
         hash_item h mem a (log2size ht) = Some i))"

text \<open>
  What the proofs need of a hash function of table entries: it reads nothing but the
  union part of the entry, and where it is defined at all it is defined at every width
  from 1 to 31 and stays below the number of buckets.
\<close>

definition hash_ok :: "(symbol \<Rightarrow> nat \<Rightarrow> 32 word option) \<Rightarrow> bool" where
  "hash_ok h =
     ((\<forall>sy sy' nb. un sy = un sy' \<longrightarrow> h sy nb = h sy' nb) \<and>
      (\<forall>sy nb nb'. h sy nb \<noteq> None \<longrightarrow> 1 \<le> nb' \<longrightarrow> nb' < 32 \<longrightarrow>
         (\<exists>r. h sy nb' = Some r \<and> unat r < 2 ^ nb')))"

text \<open>
  The lookup all five \<open>find\<close> functions perform, with the hash of the key and the test of
  an entry as parameters.
\<close>

definition find_generic ::
  "(nat \<Rightarrow> 32 word option) \<Rightarrow> (symbol \<Rightarrow> bool option) \<Rightarrow> (addr \<Rightarrow> symbol option) \<Rightarrow> hash_table
     \<Rightarrow> addr option option" where
  "find_generic raw same mem ht =
     do { hash_value \<leftarrow> raw (log2size ht);
          chain \<leftarrow> bucket ht hash_value;
          find_in_chain same mem chain }"

text \<open>
  A key, with its hash \<open>raw\<close> and its test \<open>same\<close>, fits a hash function of entries when
  the test is defined on every entry the function hashes, an entry that passes the test
  hashes like the key, and the hash of the key is defined and in range at every width
  from 1 to 31.
\<close>

definition key_ok ::
  "(symbol \<Rightarrow> nat \<Rightarrow> 32 word option) \<Rightarrow> (nat \<Rightarrow> 32 word option) \<Rightarrow> (symbol \<Rightarrow> bool option) \<Rightarrow> bool" where
  "key_ok h raw same =
     ((\<forall>sy nb. h sy nb \<noteq> None \<longrightarrow> same sy \<noteq> None) \<and>
      (\<forall>sy nb. same sy = Some True \<longrightarrow> h sy nb = raw nb) \<and>
      (\<forall>nb. 1 \<le> nb \<longrightarrow> nb < 32 \<longrightarrow> (\<exists>r. raw nb = Some r \<and> unat r < 2 ^ nb)))"

section \<open>Well-formed agents\<close>

text \<open>
  The table, the pool and the hash function of each kind of symbol, and the key a union
  part carries: its hash, the test the \<open>find\<close> function of its kind applies to an entry,
  and whether two union parts carry the same key.
\<close>

definition table_of :: "symbol_type \<Rightarrow> agent \<Rightarrow> hash_table" where
  "table_of k s =
     (case k of
        VARIABLE_SYMBOL_TYPE \<Rightarrow> variable_hash_table s
      | IDENTIFIER_SYMBOL_TYPE \<Rightarrow> identifier_hash_table s
      | SYM_CONSTANT_SYMBOL_TYPE \<Rightarrow> sym_constant_hash_table s
      | INT_CONSTANT_SYMBOL_TYPE \<Rightarrow> int_constant_hash_table s
      | FLOAT_CONSTANT_SYMBOL_TYPE \<Rightarrow> float_constant_hash_table s)"

definition pool_of :: "symbol_type \<Rightarrow> agent \<Rightarrow> memory_pool" where
  "pool_of k s =
     (case k of
        VARIABLE_SYMBOL_TYPE \<Rightarrow> variable_pool s
      | IDENTIFIER_SYMBOL_TYPE \<Rightarrow> identifier_pool s
      | SYM_CONSTANT_SYMBOL_TYPE \<Rightarrow> sym_constant_pool s
      | INT_CONSTANT_SYMBOL_TYPE \<Rightarrow> int_constant_pool s
      | FLOAT_CONSTANT_SYMBOL_TYPE \<Rightarrow> float_constant_pool s)"

definition hash_of :: "symbol_type \<Rightarrow> symbol \<Rightarrow> nat \<Rightarrow> 32 word option" where
  "hash_of k =
     (case k of
        VARIABLE_SYMBOL_TYPE \<Rightarrow> hash_variable
      | IDENTIFIER_SYMBOL_TYPE \<Rightarrow> hash_identifier
      | SYM_CONSTANT_SYMBOL_TYPE \<Rightarrow> hash_sym_constant
      | INT_CONSTANT_SYMBOL_TYPE \<Rightarrow> hash_int_constant
      | FLOAT_CONSTANT_SYMBOL_TYPE \<Rightarrow> hash_float_constant)"

definition set_table :: "symbol_type \<Rightarrow> hash_table \<Rightarrow> agent \<Rightarrow> agent" where
  "set_table k ht s =
     (case k of
        VARIABLE_SYMBOL_TYPE \<Rightarrow> s\<lparr>variable_hash_table := ht\<rparr>
      | IDENTIFIER_SYMBOL_TYPE \<Rightarrow> s\<lparr>identifier_hash_table := ht\<rparr>
      | SYM_CONSTANT_SYMBOL_TYPE \<Rightarrow> s\<lparr>sym_constant_hash_table := ht\<rparr>
      | INT_CONSTANT_SYMBOL_TYPE \<Rightarrow> s\<lparr>int_constant_hash_table := ht\<rparr>
      | FLOAT_CONSTANT_SYMBOL_TYPE \<Rightarrow> s\<lparr>float_constant_hash_table := ht\<rparr>)"

definition set_pool :: "symbol_type \<Rightarrow> memory_pool \<Rightarrow> agent \<Rightarrow> agent" where
  "set_pool k p s =
     (case k of
        VARIABLE_SYMBOL_TYPE \<Rightarrow> s\<lparr>variable_pool := p\<rparr>
      | IDENTIFIER_SYMBOL_TYPE \<Rightarrow> s\<lparr>identifier_pool := p\<rparr>
      | SYM_CONSTANT_SYMBOL_TYPE \<Rightarrow> s\<lparr>sym_constant_pool := p\<rparr>
      | INT_CONSTANT_SYMBOL_TYPE \<Rightarrow> s\<lparr>int_constant_pool := p\<rparr>
      | FLOAT_CONSTANT_SYMBOL_TYPE \<Rightarrow> s\<lparr>float_constant_pool := p\<rparr>)"

definition kind_of :: "symbol_union \<Rightarrow> symbol_type" where
  "kind_of u =
     (case u of
        VAR _ \<Rightarrow> VARIABLE_SYMBOL_TYPE
      | ID _ \<Rightarrow> IDENTIFIER_SYMBOL_TYPE
      | SC _ \<Rightarrow> SYM_CONSTANT_SYMBOL_TYPE
      | IC _ \<Rightarrow> INT_CONSTANT_SYMBOL_TYPE
      | FC _ \<Rightarrow> FLOAT_CONSTANT_SYMBOL_TYPE)"

definition raw_of :: "symbol_union \<Rightarrow> nat \<Rightarrow> 32 word option" where
  "raw_of u =
     (case u of
        VAR v \<Rightarrow> hash_variable_raw_info (var_name v)
      | ID i \<Rightarrow> hash_identifier_raw_info (name_letter i) (name_number i)
      | SC c \<Rightarrow> hash_sym_constant_raw_info (sc_name c)
      | IC v \<Rightarrow> hash_int_constant_raw_info v
      | FC v \<Rightarrow> hash_float_constant_raw_info v)"

definition test_of :: "symbol_union \<Rightarrow> symbol \<Rightarrow> bool option" where
  "test_of u y =
     (case u of
        VAR v \<Rightarrow> (case un y of VAR w \<Rightarrow> Some (var_name w = var_name v) | _ \<Rightarrow> None)
      | ID i \<Rightarrow>
          (case un y of
             ID j \<Rightarrow> Some (name_letter i = name_letter j \<and> name_number i = name_number j)
           | _ \<Rightarrow> None)
      | SC c \<Rightarrow> (case un y of SC d \<Rightarrow> Some (sc_name d = sc_name c) | _ \<Rightarrow> None)
      | IC v \<Rightarrow> (case un y of IC w \<Rightarrow> Some (v = w) | _ \<Rightarrow> None)
      | FC v \<Rightarrow> (case un y of FC w \<Rightarrow> Some (double_eq v w) | _ \<Rightarrow> None))"

definition same_key :: "symbol_union \<Rightarrow> symbol_union \<Rightarrow> bool" where
  "same_key x y =
     (case x of
        VAR v \<Rightarrow> (case y of VAR w \<Rightarrow> var_name w = var_name v | _ \<Rightarrow> False)
      | ID i \<Rightarrow>
          (case y of
             ID j \<Rightarrow> name_letter i = name_letter j \<and> name_number i = name_number j
           | _ \<Rightarrow> False)
      | SC c \<Rightarrow> (case y of SC d \<Rightarrow> sc_name d = sc_name c | _ \<Rightarrow> False)
      | IC v \<Rightarrow> (case y of IC w \<Rightarrow> v = w | _ \<Rightarrow> False)
      | FC v \<Rightarrow> (case y of FC w \<Rightarrow> double_eq v w | _ \<Rightarrow> False))"

text \<open>No two different items of a table carry the same key.\<close>

definition unique_keys :: "(addr \<Rightarrow> symbol option) \<Rightarrow> addr list \<Rightarrow> bool" where
  "unique_keys mem items =
     (\<forall>a \<in> set items. \<forall>b \<in> set items. a \<noteq> b \<longrightarrow>
        (case mem a of None \<Rightarrow> True
         | Some x \<Rightarrow> (case mem b of None \<Rightarrow> True | Some y \<Rightarrow> \<not> same_key (un x) (un y))))"

definition free_addrs :: "agent \<Rightarrow> addr list" where
  "free_addrs s =
     free_list (variable_pool s) @ free_list (identifier_pool s) @ free_list (sym_constant_pool s)
     @ free_list (int_constant_pool s) @ free_list (float_constant_pool s)"

text \<open>
  A well-formed agent: its five tables are well formed for its memory, the four tables of
  the interned kinds hold no key twice, no record is free twice, a free record (which was
  handed out once) and an address never handed out hold no symbol, and there are 26
  identifier counters.
\<close>

definition wf_agent :: "agent \<Rightarrow> bool" where
  "wf_agent s =
     ((\<forall>k. wf_hash_table (hash_of k) (symbols s) (table_of k s)) \<and>
      (\<forall>k. k \<noteq> IDENTIFIER_SYMBOL_TYPE \<longrightarrow> unique_keys (symbols s) (table_items (table_of k s))) \<and>
      distinct (free_addrs s) \<and>
      (\<forall>a \<in> set (free_addrs s). symbols s a = None \<and> a < next_unused s) \<and>
      (\<forall>a. next_unused s \<le> a \<longrightarrow> symbols s a = None) \<and>
      length (id_counter s) = 26)"

text \<open>
  The part the four \<open>make\<close> functions and \<open>make_new_identifier\<close> share: a record is
  allocated, filled in, referenced once and added to the table of its kind.
\<close>

definition install_symbol :: "symbol_union \<Rightarrow> agent \<Rightarrow> (addr \<times> agent) option" where
  "install_symbol u s =
     (case allocate_with_pool (pool_of (kind_of u) s) (next_unused s) of
        (a, pool, unused) \<Rightarrow>
          do { let mem = (symbols s)(a \<mapsto>
                       \<lparr>reference_count = 1, hash_id = current_symbol_hash_id s + 137, tc_num = 0,
                        un = u\<rparr>);
               ht \<leftarrow> add_to_hash_table (hash_of (kind_of u)) mem (table_of (kind_of u) s) a;
               Some (a, (set_table (kind_of u) ht (set_pool (kind_of u) pool s))
                          \<lparr>next_unused := unused,
                           current_symbol_hash_id := current_symbol_hash_id s + 137,
                           symbols := mem\<rparr>) })"

definition make_generic :: "symbol_union \<Rightarrow> agent \<Rightarrow> (addr \<times> agent) option" where
  "make_generic u s =
     do { found \<leftarrow> find_generic (raw_of u) (test_of u) (symbols s) (table_of (kind_of u) s);
          case found of
            Some a \<Rightarrow> do { s' \<leftarrow> symbol_add_ref s a; Some (a, s') }
          | None \<Rightarrow> install_symbol u s }"

definition deallocate_generic :: "symbol_type \<Rightarrow> agent \<Rightarrow> addr \<Rightarrow> agent option" where
  "deallocate_generic k s a =
     do { ht \<leftarrow> remove_from_hash_table (hash_of k) (symbols s) (table_of k s) a;
          Some ((set_table k ht (set_pool k (free_with_pool (pool_of k s) a) s))
                  \<lparr>symbols := (symbols s)(a := None)\<rparr>) }"

text \<open>
  The number \<open>make_new_identifier\<close> gives the identifier and the counters it leaves,
  from the counters it finds, the index of the letter and the number argument.
\<close>

definition counted :: "64 word list \<Rightarrow> nat \<Rightarrow> 64 word \<Rightarrow> 64 word \<times> 64 word list" where
  "counted counters i number =
     (if number = 0 then (counters ! i, counters[i := counters ! i + 1])
      else if number \<ge> counters ! i then (number, counters[i := number + 1])
      else (number, counters))"

section \<open>Sequences of operations on the symbol table\<close>

text \<open>
  The operations a client of the symbol table performs, and their effect in sequence.
  A sequence stops at the first operation without a result.
\<close>

datatype interner_op =
    Make_variable string
  | Make_sym_constant string
  | Make_int_constant "64 word"
  | Make_float_constant "64 word"
  | Make_new_identifier char nat "64 word"
  | Symbol_add_ref addr
  | Symbol_remove_ref addr

fun apply_op :: "agent \<Rightarrow> interner_op \<Rightarrow> agent option" where
  "apply_op s (Make_variable name) = map_option snd (make_variable s name)"
| "apply_op s (Make_sym_constant name) = map_option snd (make_sym_constant s name)"
| "apply_op s (Make_int_constant v) = map_option snd (make_int_constant s v)"
| "apply_op s (Make_float_constant v) = map_option snd (make_float_constant s v)"
| "apply_op s (Make_new_identifier letter goal_level number) =
     map_option snd (make_new_identifier s letter goal_level number)"
| "apply_op s (Symbol_add_ref a) = symbol_add_ref s a"
| "apply_op s (Symbol_remove_ref a) = symbol_remove_ref s a"

fun run_ops :: "agent \<Rightarrow> interner_op list \<Rightarrow> agent option" where
  "run_ops s [] = Some s"
| "run_ops s (x # xs) = (case apply_op s x of None \<Rightarrow> None | Some s' \<Rightarrow> run_ops s' xs)"

text \<open>
  The interning operation of the specification, \<open>intern(kind, key)\<close>, over the four
  interned kinds, the lookup that goes with it, and the union part a symbol created for a
  key gets.
\<close>

datatype intern_key =
    Variable_name string
  | Sym_constant_name string
  | Int_value "64 word"
  | Float_value "64 word"

fun intern :: "agent \<Rightarrow> intern_key \<Rightarrow> (addr \<times> agent) option" where
  "intern s (Variable_name name) = make_variable s name"
| "intern s (Sym_constant_name name) = make_sym_constant s name"
| "intern s (Int_value v) = make_int_constant s v"
| "intern s (Float_value v) = make_float_constant s v"

fun find_key :: "agent \<Rightarrow> intern_key \<Rightarrow> addr option option" where
  "find_key s (Variable_name name) = find_variable s name"
| "find_key s (Sym_constant_name name) = find_sym_constant s name"
| "find_key s (Int_value v) = find_int_constant s v"
| "find_key s (Float_value v) = find_float_constant s v"

fun key_union :: "intern_key \<Rightarrow> symbol_union" where
  "key_union (Variable_name name) = VAR \<lparr>var_name = name, gensym_number = 0\<rparr>"
| "key_union (Sym_constant_name name) = SC \<lparr>sc_name = name\<rparr>"
| "key_union (Int_value v) = IC v"
| "key_union (Float_value v) = FC v"

text \<open>
  The key a symbol of an interned kind is stored under, and the keys that are a NaN: a
  float whose exponent bits are all set and whose fraction is not zero.
\<close>

definition stored_key :: "symbol_union \<Rightarrow> intern_key option" where
  "stored_key u =
     (case u of
        VAR v \<Rightarrow> Some (Variable_name (var_name v))
      | ID i \<Rightarrow> None
      | SC c \<Rightarrow> Some (Sym_constant_name (sc_name c))
      | IC v \<Rightarrow> Some (Int_value v)
      | FC v \<Rightarrow> Some (Float_value v))"

definition nan_key :: "intern_key \<Rightarrow> bool" where
  "nan_key key = (case key of Float_value v \<Rightarrow> double_is_nan v | _ \<Rightarrow> False)"

text \<open>The reference count of the symbol at an address; zero where there is none.\<close>

definition refcount :: "agent \<Rightarrow> addr \<Rightarrow> 64 word" where
  "refcount s a = (case symbols s a of None \<Rightarrow> 0 | Some sy \<Rightarrow> reference_count sy)"

text \<open>The letter and the number of the identifier at an address.\<close>

definition identifier_name :: "agent \<Rightarrow> addr \<Rightarrow> (char \<times> 64 word) option" where
  "identifier_name s a =
     (case symbols s a of
        None \<Rightarrow> None
      | Some sy \<Rightarrow> (case un sy of ID i \<Rightarrow> Some (name_letter i, name_number i) | _ \<Rightarrow> None))"

text \<open>The live symbols of a kind are the items of its table.\<close>

definition live_symbols :: "agent \<Rightarrow> symbol_type \<Rightarrow> addr list" where
  "live_symbols s k = table_items (table_of k s)"

text \<open>The name of the symbolic constant at an address.\<close>

definition sym_constant_name :: "agent \<Rightarrow> addr \<Rightarrow> string option" where
  "sym_constant_name s a =
     (case symbols s a of
        None \<Rightarrow> None
      | Some sy \<Rightarrow> (case un sy of SC c \<Rightarrow> Some (sc_name c) | _ \<Rightarrow> None))"

text \<open>A long-term identifier is one whose \<open>smem_lti\<close> back-reference is set.\<close>

definition long_term :: "agent \<Rightarrow> addr \<Rightarrow> bool" where
  "long_term s a =
     (case symbols s a of
        None \<Rightarrow> False
      | Some sy \<Rightarrow> (case un sy of ID i \<Rightarrow> smem_lti i \<noteq> 0 | _ \<Rightarrow> False))"

text \<open>
  The line of the leak report for the identifier at an address as the specification
  words it, \<open>[@]<letter><number> --> <refcount>\<close>, to be compared with what
  \<open>print_identifier_ref_info\<close> formats.
\<close>

definition spec_leak_line :: "agent \<Rightarrow> addr \<Rightarrow> string" where
  "spec_leak_line s a =
     (case identifier_name s a of
        None \<Rightarrow> []
      | Some (letter, number) \<Rightarrow>
          (if long_term s a then ''@'' else []) @ [letter] @ std_to_string (unat number)
          @ '' --> '' @ std_to_string (unat (refcount s a)))"

text \<open>Every item of a list is an identifier symbol in memory.\<close>

definition all_ids :: "(addr \<Rightarrow> symbol option) \<Rightarrow> addr list \<Rightarrow> bool" where
  "all_ids mem items = (\<forall>a \<in> set items. \<exists>sy i. mem a = Some sy \<and> un sy = ID i)"

definition largest_count :: "agent \<Rightarrow> nat" where
  "largest_count s =
     max (count (variable_hash_table s))
       (max (count (identifier_hash_table s))
          (max (count (sym_constant_hash_table s))
             (max (count (int_constant_hash_table s)) (count (float_constant_hash_table s)))))"

section \<open>Goal stack and the state-stack listing (decider.cpp)\<close>

text \<open>
  Goals are identifier symbols reached through pointers.  A pointer is an address; the
  null pointer is \<open>None\<close>.  The store maps an address to the goal record living there;
  an address the store does not know is a dangling pointer.  Only the fields the
  functions below read are kept.  \<open>to_string\<close> stands for the result of the symbol's
  \<open>to_string()\<close> method, whose code is outside the files at hand.
\<close>

datatype impasse =
    NONE_IMPASSE_TYPE
  | CONSTRAINT_FAILURE_IMPASSE_TYPE
  | CONFLICT_IMPASSE_TYPE
  | TIE_IMPASSE_TYPE
  | ONC_IMPASSE_TYPE
  | SNC_IMPASSE_TYPE

record goal_sym =
  to_string :: string
  lower_goal :: "addr option"
  higher_goal :: "addr option"
  impasse_type :: impasse
  allow_bottom_up_chunks :: bool

type_synonym goal_store = "addr \<Rightarrow> goal_sym option"

record goal_stack =
  goals :: goal_store
  top_goal :: "addr option"
  bottom_goal :: "addr option"

text \<open>
  The first loop of \<open>get_state_stack_string\<close>:
  \<^verbatim>\<open>while (lState->id->lower_goal) { soarStackDepth++; lState = lState->id->lower_goal; }\<close>
  The result \<open>None\<close> means that the loop yields no value: it dereferences a pointer the
  store does not hold, or it follows a cyclic chain for ever.
\<close>

partial_function (option) count_depth :: "goal_store \<Rightarrow> addr \<Rightarrow> int \<Rightarrow> int option" where
  "count_depth st lState soarStackDepth =
     (case st lState of
        None \<Rightarrow> None
      | Some g \<Rightarrow>
          (case lower_goal g of
             None \<Rightarrow> Some soarStackDepth
           | Some l \<Rightarrow> count_depth st l (soarStackDepth + 1)))"

text \<open>
  The second loop, taken when the depth is below four:
  \<^verbatim>\<open>while (lState) { if (notFirstItem) str += ", "; else notFirstItem = true;
                    str.append(lState->to_string()); lState = lState->id->lower_goal; }\<close>
\<close>

partial_function (option) append_states ::
  "goal_store \<Rightarrow> addr option \<Rightarrow> bool \<Rightarrow> string \<Rightarrow> string option" where
  "append_states st lState notFirstItem stateStackStr =
     (case lState of
        None \<Rightarrow> Some stateStackStr
      | Some l \<Rightarrow>
          (case st l of
             None \<Rightarrow> None
           | Some g \<Rightarrow>
               append_states st (lower_goal g) True
                 ((if notFirstItem then stateStackStr @ '', '' else stateStackStr) @ to_string g)))"

text \<open>Reading the printed name, or a link, through a pointer that may be null.\<close>

definition deref :: "goal_store \<Rightarrow> addr option \<Rightarrow> goal_sym option" where
  "deref st p = (case p of None \<Rightarrow> None | Some a \<Rightarrow> st a)"

text \<open>
  \<open>SoarDecider::get_state_stack_string\<close>.  The string argument is passed by reference
  and appended to; the model returns the new string together with the depth.
\<close>

definition get_state_stack_string :: "goal_stack \<Rightarrow> string \<Rightarrow> (string \<times> int) option" where
  "get_state_stack_string ag stateStackStr =
     (case top_goal ag of
        None \<Rightarrow> None
      | Some t \<Rightarrow>
     (case count_depth (goals ag) t 1 of
        None \<Rightarrow> None
      | Some soarStackDepth \<Rightarrow>
          if soarStackDepth < 4 then
            (case append_states (goals ag) (top_goal ag) False stateStackStr of
               None \<Rightarrow> None
             | Some s \<Rightarrow> Some (s, soarStackDepth))
          else
            (case deref (goals ag) (top_goal ag) of None \<Rightarrow> None | Some g_top \<Rightarrow>
            (case deref (goals ag) (lower_goal g_top) of None \<Rightarrow> None | Some g_second \<Rightarrow>
            (case deref (goals ag) (bottom_goal ag) of None \<Rightarrow> None | Some g_bottom \<Rightarrow>
            (case deref (goals ag) (higher_goal g_bottom) of None \<Rightarrow> None | Some g_above \<Rightarrow>
               Some (stateStackStr @ to_string g_top @ '', '' @ to_string g_second
                       @ (if soarStackDepth > 4 then '' ... '' else '', '')
                       @ to_string g_above @ '', '' @ to_string g_bottom,
                     soarStackDepth)))))))"

text \<open>
  A well-formed goal stack: the addresses \<open>gs\<close>, top first, are linked by \<open>lower_goal\<close>
  downwards and by \<open>higher_goal\<close> upwards, and the agent's \<open>top_goal\<close> and
  \<open>bottom_goal\<close> are its two ends.
\<close>

fun lower_chain :: "goal_store \<Rightarrow> addr list \<Rightarrow> bool" where
  "lower_chain st [] = False"
| "lower_chain st [a] = (case st a of None \<Rightarrow> False | Some g \<Rightarrow> lower_goal g = None)"
| "lower_chain st (a # b # rest) =
     (case st a of None \<Rightarrow> False
      | Some g \<Rightarrow> lower_goal g = Some b \<and> lower_chain st (b # rest))"

fun higher_chain :: "goal_store \<Rightarrow> addr list \<Rightarrow> bool" where
  "higher_chain st (a # b # rest) =
     (case st b of None \<Rightarrow> False
      | Some g \<Rightarrow> higher_goal g = Some a \<and> higher_chain st (b # rest))"
| "higher_chain st _ = True"

definition wf_goal_stack :: "goal_stack \<Rightarrow> addr list \<Rightarrow> bool" where
  "wf_goal_stack ag gs =
     (gs \<noteq> [] \<and> top_goal ag = Some (hd gs) \<and> bottom_goal ag = Some (last gs)
      \<and> lower_chain (goals ag) gs \<and> higher_chain (goals ag) gs)"

text \<open>The printed names of the goals of a stack, top first.\<close>

definition goal_names :: "goal_store \<Rightarrow> addr list \<Rightarrow> string list" where
  "goal_names st gs = map (\<lambda>a. case st a of None \<Rightarrow> [] | Some g \<Rightarrow> to_string g) gs"

text \<open>
  The listing as the specification words it: every goal separated by a comma and a
  blank when there are at most four, and otherwise the top two, an ellipsis, and the
  bottom two.
\<close>

fun comma_separated :: "string list \<Rightarrow> string" where
  "comma_separated [] = []"
| "comma_separated [n] = n"
| "comma_separated (n # ns) = n @ '', '' @ comma_separated ns"

definition state_stack_listing :: "string list \<Rightarrow> string" where
  "state_stack_listing ns =
     (if length ns \<le> 4 then comma_separated ns
      else comma_separated (take 2 ns) @ '' ... '' @ comma_separated (drop (length ns - 2) ns))"

section \<open>The learning gate and the rule namer (ebc.cpp)\<close>

text \<open>
  ebc.cpp is written against a later layout of the kernel than symtab.cpp: it reaches the
  symbol table through \<open>thisAgent->symbolManager\<close>, whose methods
  \<open>find_str_constant\<close> and \<open>generate_new_str_constant\<close> are \<open>find_sym_constant\<close> and
  \<open>generate_new_sym_constant\<close> of symtab.cpp under their later names.

  An instantiation keeps the fields the two functions read.  \<open>prod_name\<close> is the printed
  name of the production's name symbol, or the null pointer; \<open>inst_prod\<close> is the field
  \<open>prod\<close>, the production or the null pointer; \<open>prod_naming_depth\<close> is taken as an
  unsigned 64-bit number like the counters printed beside it.
\<close>

record production =
  original_rule_name :: string

record instantiation_struct =
  inst_prod :: "production option"
  prod_name :: "string option"
  prod_naming_depth :: "64 word"
  match_goal :: "addr option"
  match_goal_level :: nat

datatype ebc_setting =
    SETTING_EBC_LEARNING_ON
  | SETTING_EBC_EXCEPT
  | SETTING_EBC_ONLY
  | SETTING_EBC_BOTTOM_ONLY

datatype naming_format = numberedFormat | descriptiveFormat

datatype ebc_rule_type = ebc_no_rule | ebc_chunk | ebc_justification

text \<open>
  The fields of the chunker and of its agent that the two functions touch.
  \<open>symbolManager\<close> is the symbol table, \<open>goal_symbols\<close> the memory of the goal
  identifiers, \<open>insts\<close> the memory of the instantiations, \<open>trace_chunks_warnings\<close> the
  trace setting \<open>TRACE_CHUNKS_WARNINGS_SYSPARAM\<close>, and \<open>trace\<close> what the output manager
  has been given.
\<close>

record chunker =
  symbolManager :: agent
  goal_symbols :: goal_store
  insts :: "addr \<Rightarrow> instantiation_struct option"
  init_count :: "64 word"
  d_cycle_count :: "64 word"
  trace_chunks_warnings :: bool
  trace :: "string list"
  ebc_settings :: "ebc_setting \<Rightarrow> bool"
  naming_style :: naming_format
  m_inst :: "addr option"
  m_chunk_inst :: "addr option"
  m_rule_type :: ebc_rule_type
  chunk_name_prefix :: string
  justification_name_prefix :: string
  chunks_this_d_cycle :: "64 word"
  justifications_this_d_cycle :: "64 word"
  chunk_naming_counter :: "64 word"
  justification_naming_counter :: "64 word"
  chunk_free_problem_spaces :: "addr list"
  chunky_problem_spaces :: "addr list"
  m_learning_on_for_instantiation :: bool

text \<open>
  \<open>TOP_GOAL_LEVEL\<close> is a constant of the kernel declared outside the files at hand; the
  top goal is at level 1.  \<open>member_of_list\<close> searches a list of pointers for a pointer.
\<close>

definition TOP_GOAL_LEVEL :: nat where
  "TOP_GOAL_LEVEL = 1"

definition member_of_list :: "addr option \<Rightarrow> addr list \<Rightarrow> bool" where
  "member_of_list item the_list = (case item of None \<Rightarrow> False | Some a \<Rightarrow> a \<in> set the_list)"

definition will_not_learn :: "string \<Rightarrow> string \<Rightarrow> string \<Rightarrow> string" where
  "will_not_learn rule state why =
     [CHR 0x0A] @ ''Will not attempt to learn a chunk for match of '' @ rule
       @ '' because state '' @ state @ why"

text \<open>
  The warning the three later refusals print when the trace setting is on.  It reads
  the names through \<open>inst->prod_name\<close> and \<open>inst->match_goal\<close>.
\<close>

definition refuse :: "chunker \<Rightarrow> instantiation_struct \<Rightarrow> string \<Rightarrow> (bool \<times> chunker) option" where
  "refuse e inst why =
     (if trace_chunks_warnings e
      then do { rule \<leftarrow> prod_name inst;
                g \<leftarrow> deref (goal_symbols e) (match_goal inst);
                Some (False, e\<lparr>trace := trace e @ [will_not_learn rule (to_string g) why],
                                m_learning_on_for_instantiation := False\<rparr>) }
      else Some (False, e\<lparr>m_learning_on_for_instantiation := False\<rparr>))"

text \<open>\<open>Explanation_Based_Chunker::set_learning_for_instantiation\<close>.\<close>

definition set_learning_for_instantiation :: "chunker \<Rightarrow> addr \<Rightarrow> (bool \<times> chunker) option" where
  "set_learning_for_instantiation e inst_ptr =
     do { inst \<leftarrow> insts e inst_ptr;
          if \<not> ebc_settings e SETTING_EBC_LEARNING_ON \<or> match_goal_level inst = TOP_GOAL_LEVEL
          then Some (False, e\<lparr>m_learning_on_for_instantiation := False\<rparr>)
          else if ebc_settings e SETTING_EBC_EXCEPT
                  \<and> member_of_list (match_goal inst) (chunk_free_problem_spaces e)
          then refuse e inst '' was flagged to prevent learning''
          else if ebc_settings e SETTING_EBC_ONLY
                  \<and> \<not> member_of_list (match_goal inst) (chunky_problem_spaces e)
          then refuse e inst '' was not flagged for learning''
          else if ebc_settings e SETTING_EBC_BOTTOM_ONLY
          then do { g \<leftarrow> deref (goal_symbols e) (match_goal inst);
                    if \<not> allow_bottom_up_chunks g
                    then refuse e inst '' is not the bottom state''
                    else Some (True, e\<lparr>m_learning_on_for_instantiation := True\<rparr>) }
          else Some (True, e\<lparr>m_learning_on_for_instantiation := True\<rparr>) }"

text \<open>
  Modelled from the spec: \<open>increment_counter\<close> is a macro of the kernel declared outside
  the files at hand.  Section 4.6 has the numbered style increment the counter; the macro
  adds one to it.
\<close>

definition increment_counter :: "64 word \<Rightarrow> 64 word" where
  "increment_counter counter = counter + 1"

text \<open>
  Modelled from the spec: \<open>make_str_constant_no_find\<close> is a method of the symbol manager
  that symtab.cpp does not have.  Section 4.6: the name, known to be absent, is installed
  without a second lookup; that is the branch of \<open>make_sym_constant\<close> for a name not
  found.
\<close>

definition make_str_constant_no_find :: "agent \<Rightarrow> string \<Rightarrow> (addr \<times> agent) option" where
  "make_str_constant_no_find s name = install_symbol (SC \<lparr>sc_name = name\<rparr>) s"

definition impasse_suffix :: "impasse \<Rightarrow> string" where
  "impasse_suffix t =
     (case t of
        CONSTRAINT_FAILURE_IMPASSE_TYPE \<Rightarrow> ''*Failure''
      | CONFLICT_IMPASSE_TYPE \<Rightarrow> ''*Conflict''
      | TIE_IMPASSE_TYPE \<Rightarrow> ''*Tie''
      | ONC_IMPASSE_TYPE \<Rightarrow> ''*OpNoChange''
      | SNC_IMPASSE_TYPE \<Rightarrow> ''*StateNoChange''
      | NONE_IMPASSE_TYPE \<Rightarrow> [])"

text \<open>
  Step 2 of \<open>generate_name_for_new_rule\<close>.  When the triggering instantiation has a
  production, the naming depth of the chunk instantiation is set to one more than that of
  the triggering instantiation, through the pointer \<open>m_chunk_inst\<close>; the test that
  follows reads the triggering instantiation again, after that write.
  The result is the text added to the name and the memory of the instantiations.
\<close>

definition depth_segment ::
  "chunker \<Rightarrow> addr \<Rightarrow> (string \<times> (addr \<Rightarrow> instantiation_struct option)) option" where
  "depth_segment e inst_ptr =
     do { inst \<leftarrow> insts e inst_ptr;
          case inst_prod inst of
            None \<Rightarrow> Some ([], insts e)
          | Some p \<Rightarrow>
              do { chunk_ptr \<leftarrow> m_chunk_inst e;
                   chunk_inst \<leftarrow> insts e chunk_ptr;
                   let mem = (insts e)(chunk_ptr \<mapsto>
                                chunk_inst\<lparr>prod_naming_depth := prod_naming_depth inst + 1\<rparr>);
                   inst' \<leftarrow> mem inst_ptr;
                   chunk_inst' \<leftarrow> mem chunk_ptr;
                   Some ((if prod_naming_depth inst' \<noteq> 0
                          then ''x'' @ std_to_string (unat (prod_naming_depth chunk_inst'))
                          else [])
                         @ ''*'' @ original_rule_name p, mem) } }"

text \<open>Steps 3 and 4: the impasse of the goal above the match goal, and the time.\<close>

definition descriptive_name :: "chunker \<Rightarrow> string \<Rightarrow> 64 word \<Rightarrow> (string \<times> chunker) option" where
  "descriptive_name e rule_prefix rule_number =
     do { inst_ptr \<leftarrow> m_inst e;
          (segment, mem) \<leftarrow> depth_segment e inst_ptr;
          inst \<leftarrow> mem inst_ptr;
          g \<leftarrow> deref (goal_symbols e) (match_goal inst);
          higher \<leftarrow> deref (goal_symbols e) (higher_goal g);
          Some (rule_prefix @ segment @ impasse_suffix (impasse_type higher) @ ''*t''
                  @ (if init_count e \<noteq> 0 then std_to_string (unat (init_count e + 1)) @ ''-'' else [])
                  @ std_to_string (unat (d_cycle_count e)) @ ''-''
                  @ std_to_string (unat rule_number),
                e\<lparr>insts := mem\<rparr>) }"

text \<open>
  \<open>Explanation_Based_Chunker::generate_name_for_new_rule\<close>.  The result is the symbol
  of the name and the chunker, with its symbol table and its naming counter as the call
  leaves them.
\<close>

definition generate_name_for_new_rule :: "chunker \<Rightarrow> (addr \<times> chunker) option" where
  "generate_name_for_new_rule e =
     (let chunk = (m_rule_type e = ebc_chunk);
          rule_prefix = (if chunk then chunk_name_prefix e else justification_name_prefix e);
          rule_number = (if chunk then chunks_this_d_cycle e else justifications_this_d_cycle e);
          rule_naming_counter =
            (if chunk then chunk_naming_counter e else justification_naming_counter e)
      in if \<not> ebc_settings e SETTING_EBC_LEARNING_ON \<or> naming_style e = numberedFormat
         then do { (a, counter, s) \<leftarrow>
                     generate_new_sym_constant (symbolManager e) rule_prefix
                       (increment_counter rule_naming_counter);
                   Some (a, if chunk then e\<lparr>symbolManager := s, chunk_naming_counter := counter\<rparr>
                            else e\<lparr>symbolManager := s, justification_naming_counter := counter\<rparr>) }
         else do { (new_rule_name, e1) \<leftarrow> descriptive_name e rule_prefix rule_number;
                   found \<leftarrow> find_sym_constant (symbolManager e1) new_rule_name;
                   case found of
                     Some _ \<Rightarrow>
                       do { (a, _, s) \<leftarrow> generate_new_sym_constant (symbolManager e1) new_rule_name 2;
                            Some (a, e1\<lparr>symbolManager := s\<rparr>) }
                   | None \<Rightarrow>
                       do { (a, s) \<leftarrow> make_str_constant_no_find (symbolManager e1) new_rule_name;
                            Some (a, e1\<lparr>symbolManager := s\<rparr>) } })"

text \<open>
  Step 1 of \<open>generate_name_for_new_rule\<close> read off a chunker: the prefix, the number of
  the rule within the decision cycle, the naming counter the pointer \<open>rule_naming_counter\<close>
  designates, and the assignment through that pointer.
\<close>

definition rule_name_prefix :: "chunker \<Rightarrow> string" where
  "rule_name_prefix e =
     (if m_rule_type e = ebc_chunk then chunk_name_prefix e else justification_name_prefix e)"

definition rule_naming_counter :: "chunker \<Rightarrow> 64 word" where
  "rule_naming_counter e =
     (if m_rule_type e = ebc_chunk then chunk_naming_counter e else justification_naming_counter e)"

definition set_rule_naming_counter :: "64 word \<Rightarrow> chunker \<Rightarrow> chunker" where
  "set_rule_naming_counter c e =
     (if m_rule_type e = ebc_chunk then e\<lparr>chunk_naming_counter := c\<rparr>
      else e\<lparr>justification_naming_counter := c\<rparr>)"

definition rule_number :: "chunker \<Rightarrow> 64 word" where
  "rule_number e =
     (if m_rule_type e = ebc_chunk then chunks_this_d_cycle e else justifications_this_d_cycle e)"



section \<open>Example states\<close>

text \<open>A stack of goals named \<open>S1\<close>, \<open>S3\<close>, \<open>S5\<close>, ... at the addresses 0, 1, 2, ...\<close>

definition example_goal :: "nat \<Rightarrow> nat \<Rightarrow> goal_sym" where
  "example_goal n a =
     \<lparr>to_string = ''S'' @ std_to_string (2 * a + 1),
      lower_goal = (if a + 1 < n then Some (a + 1) else None),
      higher_goal = (if 0 < a then Some (a - 1) else None),
      impasse_type = (if a + 1 < n then TIE_IMPASSE_TYPE else NONE_IMPASSE_TYPE),
      allow_bottom_up_chunks = True\<rparr>"

definition example_stack :: "nat \<Rightarrow> goal_stack" where
  "example_stack n =
     \<lparr>goals = (\<lambda>a. if a < n then Some (example_goal n a) else None),
      top_goal = Some 0, bottom_goal = Some (n - 1)\<rparr>"

text \<open>
  An agent after \<open>init_symbol_tables\<close>, and a chunker in the second decision-cycle
  state of the boundary scenarios: two goals, the top one with a tie impasse; the
  triggering instantiation (at address 0) matched in the lower goal by the production
  \<open>mv\<close>, with naming depth 0; the chunk instantiation at address 1; decision cycle 42,
  no re-initialisation, the third chunk of the cycle, both naming counters at 7.
\<close>

definition initial_agent :: agent where
  "initial_agent = blank_agent\<lparr>id_counter := replicate 26 1\<rparr>"

definition example_settings :: "ebc_setting \<Rightarrow> bool" where
  "example_settings x = (x = SETTING_EBC_LEARNING_ON)"

definition example_chunker :: chunker where
  "example_chunker =
     \<lparr>symbolManager = initial_agent,
      goal_symbols = goals (example_stack 2),
      insts = (\<lambda>a. if a = 0
                   then Some \<lparr>inst_prod = Some \<lparr>original_rule_name = ''mv''\<rparr>,
                              prod_name = Some ''mv'', prod_naming_depth = 0,
                              match_goal = Some 1, match_goal_level = 2\<rparr>
                   else if a = 1
                   then Some \<lparr>inst_prod = None, prod_name = None, prod_naming_depth = 0,
                              match_goal = Some 1, match_goal_level = 2\<rparr>
                   else None),
      init_count = 0, d_cycle_count = 42, trace_chunks_warnings = True, trace = [],
      ebc_settings = example_settings, naming_style = descriptiveFormat,
      m_inst = Some 0, m_chunk_inst = Some 1, m_rule_type = ebc_chunk,
      chunk_name_prefix = ''chunk'', justification_name_prefix = ''justify'',
      chunks_this_d_cycle = 3, justifications_this_d_cycle = 0,
      chunk_naming_counter = 7, justification_naming_counter = 7,
      chunk_free_problem_spaces = [], chunky_problem_spaces = [],
      m_learning_on_for_instantiation = True\<rparr>"

text \<open>
  The same chunker with the numbered naming style, with a triggering instantiation of
  naming depth 1, and with learning switched off.
\<close>

definition numbered_chunker :: chunker where
  "numbered_chunker = example_chunker\<lparr>naming_style := numberedFormat\<rparr>"


definition unlearning_chunker :: chunker where
  "unlearning_chunker = example_chunker\<lparr>ebc_settings := (\<lambda>_. False)\<rparr>"


text \<open>
  Two identifiers made with the same letter and the same number, and a quiet NaN.
\<close>

definition twice_S5 :: "interner_op list" where
  "twice_S5 = [Make_new_identifier CHR ''S'' 1 5, Make_new_identifier CHR ''S'' 1 5]"

text \<open>One identifier \<open>S5\<close>.\<close>

definition one_S5 :: "interner_op list" where
  "one_S5 = [Make_new_identifier CHR ''S'' 1 5]"

definition quiet_nan :: "64 word" where
  "quiet_nan = 0x7FF8000000000000"

section \<open>Hash functions and hash tables: proofs\<close>

subsection \<open>The compression function returns\<close>

lemma compress_loop_total:
  "1 \<le> nb \<Longrightarrow> nb < 32 \<Longrightarrow> take_bit nb r = r \<Longrightarrow>
   \<exists>r'. compress_loop h nb r = Some r' \<and> take_bit nb r' = r'"
proof (induction h nb r rule: compress_loop.induct)
  case (1 h num_bits result)
  show ?case
  proof (cases "h = 0")
    case True
    with 1(4) show ?thesis by (simp add: compress_loop.simps)
  next
    case False
    have tb: "take_bit num_bits (result XOR (h AND mask num_bits)) = result XOR (h AND mask num_bits)"
      using 1(4) by (simp add: take_bit_eq_mask bit.conj_xor_distrib2 and.assoc)
    from False 1(2,3) have "\<not> (num_bits = 0 \<or> 32 \<le> num_bits)" by simp
    from 1(1)[OF False this 1(2) 1(3) tb] False 1(2,3) show ?thesis
      by (subst compress_loop.simps) simp
  qed
qed

lemma compress_total:
  assumes "1 \<le> nb" "nb < 32"
  shows "\<exists>r. compress h nb = Some r \<and> unat r < 2 ^ nb"
proof -
  have "take_bit nb (0::32 word) = 0" by simp
  from compress_loop_total[OF assms this] obtain r where
    r: "\<And>h. \<exists>r. compress_loop h nb 0 = Some r \<and> take_bit nb r = r"
    using compress_loop_total[OF assms \<open>take_bit nb (0::32 word) = 0\<close>] by blast
  obtain r' where r': "compress h nb = Some r'" "take_bit nb r' = r'"
    using r unfolding compress_def Let_def by blast
  have "unat (take_bit nb r') < 2 ^ nb"
    by (simp add: unsigned_take_bit_eq)
  with r' show ?thesis by simp
qed

subsection \<open>Chains and buckets\<close>

lemma concat_split_ex:
  assumes "i < length bs"
  shows "\<exists>A B. concat bs = A @ bs ! i @ B \<and> (\<forall>x. concat (bs[i := x]) = A @ x @ B)"
proof (intro exI conjI allI)
  show "concat bs = concat (take i bs) @ bs ! i @ concat (drop (Suc i) bs)"
    using assms by (metis concat.simps(2) concat_append id_take_nth_drop)
  show "concat (bs[i := x]) = concat (take i bs) @ x @ concat (drop (Suc i) bs)" for x
    using assms by (simp add: upd_conv_take_nth_drop)
qed

lemma set_concat_update_Cons:
  assumes "i < length bs"
  shows "set (concat (bs[i := a # bs ! i])) = insert a (set (concat bs))"
proof -
  from concat_split_ex[OF assms] obtain A B where
    "concat bs = A @ bs ! i @ B" "\<And>x. concat (bs[i := x]) = A @ x @ B" by blast
  then show ?thesis by auto
qed

lemma length_concat_update_Cons:
  assumes "i < length bs"
  shows "length (concat (bs[i := a # bs ! i])) = Suc (length (concat bs))"
proof -
  from concat_split_ex[OF assms] obtain A B where
    "concat bs = A @ bs ! i @ B" "\<And>x. concat (bs[i := x]) = A @ x @ B" by blast
  then show ?thesis by auto
qed

lemma distinct_concat_update_Cons:
  assumes "i < length bs"
  shows "distinct (concat (bs[i := a # bs ! i])) = (a \<notin> set (concat bs) \<and> distinct (concat bs))"
proof -
  from concat_split_ex[OF assms] obtain A B where
    "concat bs = A @ bs ! i @ B" "\<And>x. concat (bs[i := x]) = A @ x @ B" by blast
  then show ?thesis by auto
qed

lemma set_concat_update_remove1:
  assumes "i < length bs" "distinct (concat bs)" "a \<in> set (bs ! i)"
  shows "set (concat (bs[i := remove1 a (bs ! i)])) = set (concat bs) - {a}"
proof -
  from concat_split_ex[OF assms(1)] obtain A B where
    "concat bs = A @ bs ! i @ B" "\<And>x. concat (bs[i := x]) = A @ x @ B" by blast
  with assms(2,3) show ?thesis by auto
qed

lemma length_concat_update_remove1:
  assumes "i < length bs" "a \<in> set (bs ! i)"
  shows "length (concat (bs[i := remove1 a (bs ! i)])) = length (concat bs) - 1"
proof -
  from concat_split_ex[OF assms(1)] obtain A B where
    "concat bs = A @ bs ! i @ B" "\<And>x. concat (bs[i := x]) = A @ x @ B" by blast
  moreover from assms(2) have "length (remove1 a (bs ! i)) + 1 = length (bs ! i)"
    using length_pos_if_in_set[OF assms(2)] by (simp add: length_remove1)
  ultimately show ?thesis by simp
qed

lemma distinct_concat_update_remove1:
  assumes "i < length bs" "distinct (concat bs)"
  shows "distinct (concat (bs[i := remove1 a (bs ! i)]))"
proof -
  from concat_split_ex[OF assms(1)] obtain A B where
    "concat bs = A @ bs ! i @ B" "\<And>x. concat (bs[i := x]) = A @ x @ B" by blast
  with assms(2) show ?thesis by (auto dest: notin_set_remove1)
qed

lemma in_concat_nth: "a \<in> set (concat bs) \<longleftrightarrow> (\<exists>i < length bs. a \<in> set (bs ! i))"
  by (metis in_set_conv_nth set_concat UN_iff)

subsection \<open>Insertion, removal and resizing\<close>

lemma hash_ok_un: "hash_ok h \<Longrightarrow> un sy = un sy' \<Longrightarrow> h sy nb = h sy' nb"
  unfolding hash_ok_def by blast

lemma hash_ok_width:
  "hash_ok h \<Longrightarrow> h sy nb = Some r \<Longrightarrow> 1 \<le> nb' \<Longrightarrow> nb' < 32 \<Longrightarrow>
   \<exists>r'. h sy nb' = Some r' \<and> unat r' < 2 ^ nb'"
  unfolding hash_ok_def by (metis option.distinct(1))

lemma hash_item_un:
  assumes "hash_ok h" "map_option un (mem' a) = map_option un (mem a)"
  shows "hash_item h mem' a nb = hash_item h mem a nb"
proof (cases "mem a")
  case None
  with assms(2) show ?thesis by (simp add: hash_item_def)
next
  case (Some sy)
  with assms(2) obtain sy' where "mem' a = Some sy'" "un sy' = un sy" by auto
  moreover from assms(1) this(2) have "h sy' nb = h sy nb" by (rule hash_ok_un)
  ultimately show ?thesis using Some by (simp add: hash_item_def)
qed

lemma hash_item_Some:
  "hash_item h mem a nb = Some i \<longleftrightarrow> (\<exists>sy r. mem a = Some sy \<and> h sy nb = Some r \<and> i = unat r)"
  by (auto simp: hash_item_def bind_eq_Some_conv)

lemma hash_item_width:
  assumes "hash_ok h" "hash_item h mem a nb = Some i" "1 \<le> nb'" "nb' < 32"
  shows "\<exists>j. hash_item h mem a nb' = Some j \<and> j < 2 ^ nb'"
proof -
  from assms(2) obtain sy r where sy: "mem a = Some sy" "h sy nb = Some r"
    by (auto simp: hash_item_Some)
  from hash_ok_width[OF assms(1) sy(2) assms(3,4)] obtain r' where
    "h sy nb' = Some r'" "unat r' < 2 ^ nb'" by blast
  with sy show ?thesis by (auto simp: hash_item_Some)
qed

lemma wf_hash_table_frame:
  assumes "hash_ok h" "wf_hash_table h mem ht"
    and "\<forall>a \<in> set (table_items ht). map_option un (mem' a) = map_option un (mem a)"
  shows "wf_hash_table h mem' ht"
proof -
  have "hash_item h mem' a (log2size ht) = hash_item h mem a (log2size ht)"
    if "i < length (buckets ht)" "a \<in> set (buckets ht ! i)" for i a
  proof -
    from that have "a \<in> set (table_items ht)"
      using in_concat_nth[of a "buckets ht"] by (simp only: table_items_def) blast
    with assms(3) show ?thesis by (intro hash_item_un[OF assms(1)]) simp
  qed
  with assms(2) show ?thesis by (simp add: wf_hash_table_def)
qed

lemma wf_item_hash:
  assumes "wf_hash_table h mem ht" "a \<in> set (table_items ht)"
  shows "\<exists>i < length (buckets ht). a \<in> set (buckets ht ! i) \<and> hash_item h mem a (log2size ht) = Some i"
proof -
  from assms(2) have "a \<in> set (concat (buckets ht))" by (simp only: table_items_def)
  then obtain i where "i < length (buckets ht)" "a \<in> set (buckets ht ! i)"
    using in_concat_nth[of a "buckets ht"] by blast
  with assms(1) show ?thesis unfolding wf_hash_table_def by blast
qed

lemma rehash_spec:
  assumes "hash_ok h" "1 \<le> l" "l < 32"
  shows "length bs = 2 ^ l \<Longrightarrow>
     \<forall>a \<in> set items. \<exists>i. hash_item h mem a nb0 = Some i \<Longrightarrow>
     distinct items \<Longrightarrow> distinct (concat bs) \<Longrightarrow> set items \<inter> set (concat bs) = {} \<Longrightarrow>
     \<forall>i < length bs. \<forall>a \<in> set (bs ! i). hash_item h mem a l = Some i \<Longrightarrow>
     \<exists>bs'. rehash h mem l items bs = Some bs' \<and> length bs' = 2 ^ l \<and>
           set (concat bs') = set items \<union> set (concat bs) \<and>
           length (concat bs') = length items + length (concat bs) \<and>
           distinct (concat bs') \<and>
           (\<forall>i < length bs'. \<forall>a \<in> set (bs' ! i). hash_item h mem a l = Some i)"
proof (induction items arbitrary: bs)
  case Nil
  then show ?case by simp
next
  case (Cons a items)
  from Cons.prems(2) obtain i0 where "hash_item h mem a nb0 = Some i0" by auto
  from hash_item_width[OF assms(1) this assms(2,3)] obtain j where
    j: "hash_item h mem a l = Some j" "j < 2 ^ l" by blast
  let ?bs = "bs[j := a # bs ! j]"
  have jl: "j < length bs" using j Cons.prems(1) by simp
  have 1: "length ?bs = 2 ^ l" using Cons.prems(1) by simp
  have 2: "\<forall>a \<in> set items. \<exists>i. hash_item h mem a nb0 = Some i" using Cons.prems(2) by simp
  have 3: "distinct items" using Cons.prems(3) by simp
  have 4: "distinct (concat ?bs)"
    using Cons.prems(4,5) by (simp add: distinct_concat_update_Cons[OF jl])
  have 5: "set items \<inter> set (concat ?bs) = {}"
    using Cons.prems(3,5) unfolding set_concat_update_Cons[OF jl] by auto
  have 6: "\<forall>i < length ?bs. \<forall>b \<in> set (?bs ! i). hash_item h mem b l = Some i"
    using Cons.prems(6) j jl by (auto simp: nth_list_update split: if_splits)
  from Cons.IH[OF 1 2 3 4 5 6] obtain bs' where
    bs': "rehash h mem l items ?bs = Some bs'" "length bs' = 2 ^ l"
      "set (concat bs') = set items \<union> set (concat ?bs)"
      "length (concat bs') = length items + length (concat ?bs)"
      "distinct (concat bs')"
      "\<forall>i < length bs'. \<forall>a \<in> set (bs' ! i). hash_item h mem a l = Some i"
    by blast
  have "rehash h mem l (a # items) bs = Some bs'"
    using j jl bs'(1) by simp
  moreover have "set (concat bs') = set (a # items) \<union> set (concat bs)"
    using bs'(3) unfolding set_concat_update_Cons[OF jl] by auto
  moreover have "length (concat bs') = length (a # items) + length (concat bs)"
    using bs'(4) by (simp add: length_concat_update_Cons[OF jl])
  ultimately show ?case using bs'(2,5,6) by blast
qed

lemma resize_spec:
  assumes "hash_ok h" "1 \<le> l" "l < 32" "distinct (table_items ht)"
    and "\<forall>a \<in> set (table_items ht). \<exists>i. hash_item h mem a nb0 = Some i"
  shows "\<exists>ht'. resize_hash_table h mem ht l = Some ht' \<and> log2size ht' = l \<and>
           count ht' = count ht \<and> length (buckets ht') = 2 ^ l \<and>
           set (table_items ht') = set (table_items ht) \<and>
           length (table_items ht') = length (table_items ht) \<and>
           distinct (table_items ht') \<and>
           (\<forall>i < length (buckets ht'). \<forall>a \<in> set (buckets ht' ! i). hash_item h mem a l = Some i)"
proof -
  let ?e = "replicate (2 ^ l) ([] :: addr list)"
  have e: "concat ?e = []" by simp
  have "\<exists>bs'. rehash h mem l (table_items ht) ?e = Some bs' \<and> length bs' = 2 ^ l \<and>
           set (concat bs') = set (table_items ht) \<union> set (concat ?e) \<and>
           length (concat bs') = length (table_items ht) + length (concat ?e) \<and>
           distinct (concat bs') \<and>
           (\<forall>i < length bs'. \<forall>a \<in> set (bs' ! i). hash_item h mem a l = Some i)"
  proof (rule rehash_spec[OF assms(1,2,3)])
    show "length ?e = 2 ^ l" by simp
    show "\<forall>a \<in> set (table_items ht). \<exists>i. hash_item h mem a nb0 = Some i" by (rule assms(5))
    show "distinct (table_items ht)" by (rule assms(4))
    show "distinct (concat ?e)" unfolding e by simp
    show "set (table_items ht) \<inter> set (concat ?e) = {}" unfolding e by simp
    show "\<forall>i < length ?e. \<forall>a \<in> set (?e ! i). hash_item h mem a l = Some i" by simp
  qed
  then obtain bs' where bs': "rehash h mem l (table_items ht) ?e = Some bs'" "length bs' = 2 ^ l"
      "set (concat bs') = set (table_items ht)"
      "length (concat bs') = length (table_items ht)"
      "distinct (concat bs')"
      "\<forall>i < length bs'. \<forall>a \<in> set (bs' ! i). hash_item h mem a l = Some i"
    unfolding e by auto
  have "resize_hash_table h mem ht l = Some (ht\<lparr>log2size := l, buckets := bs'\<rparr>)"
    using bs'(1) by (simp add: resize_hash_table_def table_items_def)
  then show ?thesis using bs'(2-6)
    by (intro exI[of _ "ht\<lparr>log2size := l, buckets := bs'\<rparr>"]) (simp add: table_items_def)
qed

lemma add_to_hash_table_spec:
  assumes "hash_ok h" "wf_hash_table h mem ht" "a \<notin> set (table_items ht)"
    and "hash_item h mem a nb0 = Some i0" "count ht < 2 ^ 32"
  shows "\<exists>ht'. add_to_hash_table h mem ht a = Some ht' \<and> wf_hash_table h mem ht' \<and>
           set (table_items ht') = insert a (set (table_items ht)) \<and>
           count ht' = Suc (count ht)"
proof -
  let ?c = "ht\<lparr>count := count ht + 1\<rparr>"
  have wfl: "1 \<le> log2size ht" "log2size ht < 32" "length (buckets ht) = 2 ^ log2size ht"
    "count ht = length (table_items ht)" "distinct (table_items ht)"
    "\<forall>i < length (buckets ht). \<forall>a \<in> set (buckets ht ! i). hash_item h mem a (log2size ht) = Some i"
    using assms(2) by (simp_all add: wf_hash_table_def)
  have items_c: "table_items ?c = table_items ht" by (simp add: table_items_def)
  have hashable: "\<forall>a \<in> set (table_items ht). \<exists>i. hash_item h mem a (log2size ht) = Some i"
    using wf_item_hash[OF assms(2)] by blast
  have "\<exists>ht1. (if count ?c > 2 * 2 ^ log2size ?c
                 then resize_hash_table h mem ?c (log2size ?c + 1) else Some ?c) = Some ht1 \<and>
          1 \<le> log2size ht1 \<and> log2size ht1 < 32 \<and> length (buckets ht1) = 2 ^ log2size ht1 \<and>
          count ht1 = Suc (count ht) \<and> set (table_items ht1) = set (table_items ht) \<and>
          length (table_items ht1) = length (table_items ht) \<and> distinct (table_items ht1) \<and>
          (\<forall>i < length (buckets ht1). \<forall>a \<in> set (buckets ht1 ! i).
              hash_item h mem a (log2size ht1) = Some i)"
  proof (cases "count ?c > 2 * 2 ^ log2size ?c")
    case True
    have l: "log2size ht + 1 < 32"
    proof (rule ccontr)
      assume "\<not> log2size ht + 1 < 32"
      with wfl(2) have "log2size ht = 31" by simp
      with True assms(5) show False by simp
    qed
    have l1: "1 \<le> log2size ht + 1" by simp
    from resize_spec[OF assms(1) l1 l, of ?c mem "log2size ht"] wfl(5) hashable
    obtain ht' where ht': "resize_hash_table h mem ?c (log2size ht + 1) = Some ht'"
           "log2size ht' = log2size ht + 1" "count ht' = count ?c"
           "length (buckets ht') = 2 ^ (log2size ht + 1)"
           "set (table_items ht') = set (table_items ht)"
           "length (table_items ht') = length (table_items ht)"
           "distinct (table_items ht')"
           "\<forall>i < length (buckets ht'). \<forall>a \<in> set (buckets ht' ! i). hash_item h mem a (log2size ht + 1) = Some i"
      unfolding items_c by blast
    have "(if count ?c > 2 * 2 ^ log2size ?c
           then resize_hash_table h mem ?c (log2size ?c + 1) else Some ?c) = Some ht'"
      using True ht'(1) by simp
    moreover have "log2size ht' < 32" "1 \<le> log2size ht'" "count ht' = Suc (count ht)"
      "length (buckets ht') = 2 ^ log2size ht'"
      using ht'(2,3,4) l by simp_all
    moreover have "\<forall>i < length (buckets ht'). \<forall>a \<in> set (buckets ht' ! i).
              hash_item h mem a (log2size ht') = Some i"
      using ht'(8) unfolding ht'(2) .
    ultimately show ?thesis using ht'(5,6,7) by blast
  next
    case False
    then have "(if count ?c > 2 * 2 ^ log2size ?c
           then resize_hash_table h mem ?c (log2size ?c + 1) else Some ?c) = Some ?c"
      by simp
    moreover have "1 \<le> log2size ?c" "log2size ?c < 32" "length (buckets ?c) = 2 ^ log2size ?c"
      "count ?c = Suc (count ht)" "set (table_items ?c) = set (table_items ht)"
      "length (table_items ?c) = length (table_items ht)" "distinct (table_items ?c)"
      using wfl by (simp_all add: table_items_def)
    moreover have "\<forall>i < length (buckets ?c). \<forall>a \<in> set (buckets ?c ! i).
              hash_item h mem a (log2size ?c) = Some i"
      using wfl(6) by simp
    ultimately show ?thesis by blast
  qed
  then obtain ht1 where ht1: "(if count ?c > 2 * 2 ^ log2size ?c
                 then resize_hash_table h mem ?c (log2size ?c + 1) else Some ?c) = Some ht1"
          "1 \<le> log2size ht1" "log2size ht1 < 32" "length (buckets ht1) = 2 ^ log2size ht1"
          "count ht1 = Suc (count ht)" "set (table_items ht1) = set (table_items ht)"
          "length (table_items ht1) = length (table_items ht)" "distinct (table_items ht1)"
          "\<forall>i < length (buckets ht1). \<forall>a \<in> set (buckets ht1 ! i).
              hash_item h mem a (log2size ht1) = Some i"
    by blast
  from hash_item_width[OF assms(1,4) ht1(2,3)] obtain j where
    j: "hash_item h mem a (log2size ht1) = Some j" "j < 2 ^ log2size ht1" by blast
  then have jl: "j < length (buckets ht1)" using ht1(4) by simp
  let ?ht' = "ht1\<lparr>buckets := (buckets ht1)[j := a # buckets ht1 ! j]\<rparr>"
  have "add_to_hash_table h mem ht a = Some ?ht'"
    unfolding add_to_hash_table_def Let_def ht1(1) using j jl by simp
  moreover have "wf_hash_table h mem ?ht'"
  proof -
    have "length (table_items ?ht') = Suc (length (table_items ht))"
      using ht1(7) jl by (simp add: table_items_def length_concat_update_Cons)
    moreover have "distinct (table_items ?ht')"
      using ht1(6,8) jl assms(3) by (simp add: table_items_def distinct_concat_update_Cons del: set_concat)
    moreover have "\<forall>i < length (buckets ?ht'). \<forall>b \<in> set (buckets ?ht' ! i).
                     hash_item h mem b (log2size ?ht') = Some i"
      using ht1(9) j jl by (auto simp: nth_list_update split: if_splits)
    ultimately show ?thesis using ht1(2,3,4,5) wfl(4) by (simp add: wf_hash_table_def)
  qed
  moreover have "set (table_items ?ht') = insert a (set (table_items ht))"
    using ht1(6) jl by (simp add: table_items_def set_concat_update_Cons del: set_concat)
  ultimately show ?thesis using ht1(5) by auto
qed

lemma remove_from_hash_table_spec:
  assumes "wf_hash_table h mem ht" "a \<in> set (table_items ht)"
  shows "\<exists>ht'. remove_from_hash_table h mem ht a = Some ht' \<and> wf_hash_table h mem ht' \<and>
           set (table_items ht') = set (table_items ht) - {a} \<and> log2size ht' = log2size ht \<and>
           count ht' = count ht - 1"
proof -
  from wf_item_hash[OF assms] obtain i where
    i: "i < length (buckets ht)" "a \<in> set (buckets ht ! i)"
       "hash_item h mem a (log2size ht) = Some i" by blast
  let ?ht' = "ht\<lparr>count := count ht - 1, buckets := (buckets ht)[i := remove1 a (buckets ht ! i)]\<rparr>"
  have wfl: "1 \<le> log2size ht" "log2size ht < 32" "length (buckets ht) = 2 ^ log2size ht"
    "count ht = length (concat (buckets ht))" "distinct (concat (buckets ht))"
    "\<forall>i < length (buckets ht). \<forall>a \<in> set (buckets ht ! i). hash_item h mem a (log2size ht) = Some i"
    using assms(1) by (simp_all add: wf_hash_table_def table_items_def)
  have "remove_from_hash_table h mem ht a = Some ?ht'"
    using i by (simp add: remove_from_hash_table_def)
  moreover have "wf_hash_table h mem ?ht'"
  proof -
    have "length (table_items ?ht') = count ht - 1"
      using wfl(4) i by (simp add: table_items_def length_concat_update_remove1)
    moreover have "distinct (table_items ?ht')"
      using wfl(5) i by (simp add: table_items_def distinct_concat_update_remove1)
    moreover have "\<forall>k < length (buckets ?ht'). \<forall>b \<in> set (buckets ?ht' ! k).
                     hash_item h mem b (log2size ?ht') = Some k"
      using wfl(6) i by (auto simp: nth_list_update split: if_splits dest: notin_set_remove1)
    ultimately show ?thesis using wfl(1,2,3) by (simp add: wf_hash_table_def)
  qed
  moreover have "set (table_items ?ht') = set (table_items ht) - {a}"
    using wfl(5) i by (simp add: table_items_def set_concat_update_remove1 del: set_concat)
  ultimately show ?thesis by auto
qed

subsection \<open>Lookup\<close>

lemma key_ok_same: "key_ok h raw same \<Longrightarrow> h sy nb = Some r \<Longrightarrow> \<exists>b. same sy = Some b"
  unfolding key_ok_def by (metis option.distinct(1) option.exhaust)

lemma key_ok_hash: "key_ok h raw same \<Longrightarrow> same sy = Some True \<Longrightarrow> h sy nb = raw nb"
  unfolding key_ok_def by blast

lemma key_ok_raw:
  "key_ok h raw same \<Longrightarrow> 1 \<le> nb \<Longrightarrow> nb < 32 \<Longrightarrow> \<exists>r. raw nb = Some r \<and> unat r < 2 ^ nb"
  unfolding key_ok_def by blast

lemma find_in_chain_total:
  "\<forall>a \<in> set chain. \<exists>sy b. mem a = Some sy \<and> same sy = Some b \<Longrightarrow>
   \<exists>r. find_in_chain same mem chain = Some r"
  by (induction chain) auto

lemma find_in_chain_SomeD:
  "find_in_chain same mem chain = Some (Some a) \<Longrightarrow>
   a \<in> set chain \<and> (\<exists>sy. mem a = Some sy \<and> same sy = Some True)"
  by (induction chain) (auto simp: bind_eq_Some_conv split: if_splits)

lemma find_in_chain_NoneD:
  "find_in_chain same mem chain = Some None \<Longrightarrow> a \<in> set chain \<Longrightarrow>
   \<exists>sy. mem a = Some sy \<and> same sy = Some False"
  by (induction chain) (auto simp: bind_eq_Some_conv split: if_splits)

lemma wf_bucket_chain:
  assumes "wf_hash_table h mem ht" "key_ok h raw same"
  shows "\<exists>r. raw (log2size ht) = Some r \<and> unat r < length (buckets ht) \<and>
             bucket ht r = Some (buckets ht ! unat r) \<and>
             (\<forall>a \<in> set (buckets ht ! unat r). \<exists>sy b. mem a = Some sy \<and> same sy = Some b)"
proof -
  from assms(1) have l: "1 \<le> log2size ht" "log2size ht < 32"
    and len: "length (buckets ht) = 2 ^ log2size ht"
    and pl: "\<forall>i < length (buckets ht). \<forall>a \<in> set (buckets ht ! i).
               hash_item h mem a (log2size ht) = Some i"
    by (simp_all add: wf_hash_table_def)
  from key_ok_raw[OF assms(2) l] obtain r where r: "raw (log2size ht) = Some r" "unat r < 2 ^ log2size ht"
    by blast
  then have rl: "unat r < length (buckets ht)" using len by simp
  have "\<exists>sy b. mem a = Some sy \<and> same sy = Some b" if "a \<in> set (buckets ht ! unat r)" for a
  proof -
    from pl rl that have "hash_item h mem a (log2size ht) = Some (unat r)" by blast
    then obtain sy r' where "mem a = Some sy" "h sy (log2size ht) = Some r'"
      by (auto simp: hash_item_Some)
    with key_ok_same[OF assms(2) this(2)] show ?thesis by blast
  qed
  with r rl show ?thesis by (simp add: bucket_def)
qed

lemma find_generic_total:
  assumes "wf_hash_table h mem ht" "key_ok h raw same"
  shows "\<exists>r. find_generic raw same mem ht = Some r"
proof -
  from wf_bucket_chain[OF assms] obtain r where
    r: "raw (log2size ht) = Some r" "bucket ht r = Some (buckets ht ! unat r)"
       "\<forall>a \<in> set (buckets ht ! unat r). \<exists>sy b. mem a = Some sy \<and> same sy = Some b"
    by blast
  from find_in_chain_total[OF r(3)] r(1,2) show ?thesis
    by (simp add: find_generic_def)
qed

lemma find_generic_SomeD:
  assumes "wf_hash_table h mem ht" "key_ok h raw same"
    and "find_generic raw same mem ht = Some (Some a)"
  shows "a \<in> set (table_items ht) \<and> (\<exists>sy. mem a = Some sy \<and> same sy = Some True)"
proof -
  from wf_bucket_chain[OF assms(1,2)] obtain r where
    r: "raw (log2size ht) = Some r" "unat r < length (buckets ht)"
       "bucket ht r = Some (buckets ht ! unat r)"
    by blast
  with assms(3) have "find_in_chain same mem (buckets ht ! unat r) = Some (Some a)"
    by (simp add: find_generic_def)
  from find_in_chain_SomeD[OF this] have
    "a \<in> set (buckets ht ! unat r)" "\<exists>sy. mem a = Some sy \<and> same sy = Some True" by simp_all
  moreover from this(1) r(2) have "a \<in> set (concat (buckets ht))"
    using in_concat_nth[of a "buckets ht"] by blast
  ultimately show ?thesis by (simp add: table_items_def)
qed

lemma find_generic_NoneD:
  assumes "wf_hash_table h mem ht" "key_ok h raw same"
    and "find_generic raw same mem ht = Some None"
    and "a \<in> set (table_items ht)" "mem a = Some sy"
  shows "same sy \<noteq> Some True"
proof
  assume t: "same sy = Some True"
  from wf_bucket_chain[OF assms(1,2)] obtain r where
    r: "raw (log2size ht) = Some r" "unat r < length (buckets ht)"
       "bucket ht r = Some (buckets ht ! unat r)"
    by blast
  with assms(3) have f: "find_in_chain same mem (buckets ht ! unat r) = Some None"
    by (simp add: find_generic_def)
  from wf_item_hash[OF assms(1,4)] obtain i where
    i: "i < length (buckets ht)" "a \<in> set (buckets ht ! i)"
       "hash_item h mem a (log2size ht) = Some i" by blast
  from i(3) assms(5) obtain r' where "h sy (log2size ht) = Some r'" "i = unat r'"
    by (auto simp: hash_item_Some)
  moreover have "h sy (log2size ht) = raw (log2size ht)"
    by (rule key_ok_hash[OF assms(2) t])
  ultimately have "i = unat r" using r(1) by simp
  with i(2) have "a \<in> set (buckets ht ! unat r)" by simp
  from find_in_chain_NoneD[OF f this] assms(5) t show False by simp
qed

lemma find_generic_unique:
  assumes "wf_hash_table h mem ht" "key_ok h raw same"
    and "a \<in> set (table_items ht)" "mem a = Some sy" "same sy = Some True"
    and "\<And>b sb. b \<in> set (table_items ht) \<Longrightarrow> b \<noteq> a \<Longrightarrow> mem b = Some sb \<Longrightarrow> same sb \<noteq> Some True"
  shows "find_generic raw same mem ht = Some (Some a)"
proof -
  from find_generic_total[OF assms(1,2)] obtain r where r: "find_generic raw same mem ht = Some r"
    by blast
  show ?thesis
  proof (cases r)
    case None
    with r find_generic_NoneD[OF assms(1,2) _ assms(3,4)] assms(5) show ?thesis by simp
  next
    case (Some b)
    with r find_generic_SomeD[OF assms(1,2)] obtain sb where
      "b \<in> set (table_items ht)" "mem b = Some sb" "same sb = Some True" by blast
    with assms(6) have "b = a" by blast
    with r Some show ?thesis by simp
  qed
qed

subsection \<open>The five kinds of symbol\<close>

lemmas kind_defs0 = table_of_def pool_of_def hash_of_def set_table_def set_pool_def kind_of_def
  raw_of_def

lemma test_lambdas:
  "(\<lambda>sy. case un sy of VAR v \<Rightarrow> Some (var_name v = name) | _ \<Rightarrow> None) =
     test_of (VAR \<lparr>var_name = name, gensym_number = 0\<rparr>)"
  "(\<lambda>sy. case un sy of ID i \<Rightarrow> Some (letter = name_letter i \<and> number = name_number i) | _ \<Rightarrow> None) =
     test_of (ID \<lparr>name_letter = letter, name_number = number, level = l, promotion_level = p, smem_lti = x\<rparr>)"
  "(\<lambda>sy. case un sy of SC c \<Rightarrow> Some (sc_name c = name) | _ \<Rightarrow> None) =
     test_of (SC \<lparr>sc_name = name\<rparr>)"
  "(\<lambda>sy. case un sy of IC w \<Rightarrow> Some (v = w) | _ \<Rightarrow> None) = test_of (IC v)"
  "(\<lambda>sy. case un sy of FC w \<Rightarrow> Some (double_eq v w) | _ \<Rightarrow> None) = test_of (FC v)"
  by (rule ext, simp add: test_of_def split: symbol_union.splits)+

lemmas kind_defs = kind_defs0

lemma find_variable_generic:
  "find_variable s name =
     find_generic (raw_of (VAR \<lparr>var_name = name, gensym_number = 0\<rparr>))
       (test_of (VAR \<lparr>var_name = name, gensym_number = 0\<rparr>)) (symbols s)
       (table_of VARIABLE_SYMBOL_TYPE s)"
  by (simp add: find_variable_def find_generic_def kind_defs test_lambdas)

lemma find_sym_constant_generic:
  "find_sym_constant s name =
     find_generic (raw_of (SC \<lparr>sc_name = name\<rparr>)) (test_of (SC \<lparr>sc_name = name\<rparr>)) (symbols s)
       (table_of SYM_CONSTANT_SYMBOL_TYPE s)"
  by (simp add: find_sym_constant_def find_generic_def kind_defs test_lambdas)

lemma find_int_constant_generic:
  "find_int_constant s v =
     find_generic (raw_of (IC v)) (test_of (IC v)) (symbols s) (table_of INT_CONSTANT_SYMBOL_TYPE s)"
  by (simp add: find_int_constant_def find_generic_def kind_defs test_lambdas)

lemma find_float_constant_generic:
  "find_float_constant s v =
     find_generic (raw_of (FC v)) (test_of (FC v)) (symbols s) (table_of FLOAT_CONSTANT_SYMBOL_TYPE s)"
  by (simp add: find_float_constant_def find_generic_def kind_defs test_lambdas)

lemma find_identifier_generic:
  "find_identifier s letter number =
     find_generic (raw_of (ID \<lparr>name_letter = letter, name_number = number, level = l, promotion_level = p, smem_lti = x\<rparr>))
        (test_of (ID \<lparr>name_letter = letter, name_number = number, level = l, promotion_level = p, smem_lti = x\<rparr>))
        (symbols s) (table_of IDENTIFIER_SYMBOL_TYPE s)"
  by (simp add: find_identifier_def find_generic_def kind_defs test_lambdas(2)[of letter number l p x])

lemma install_variable:
  "(let (a, pool, unused) = allocate_with_pool (variable_pool s) (next_unused s);
        s1 = s\<lparr>variable_pool := pool, next_unused := unused\<rparr>;
        (hid, s2) = get_next_symbol_hash_id s1;
        s3 = s2\<lparr>symbols := (symbols s2)(a \<mapsto>
               \<lparr>reference_count = 0, hash_id = hid, tc_num = 0, un = VAR \<lparr>var_name = key, gensym_number = 0\<rparr>\<rparr>)\<rparr>
    in symbol_add_ref s3 a \<bind>
       (\<lambda>s4. add_to_hash_table hash_variable (symbols s4) (variable_hash_table s4) a \<bind>
             (\<lambda>ht. Some (a, s4\<lparr>variable_hash_table := ht\<rparr>)))) = install_symbol (VAR \<lparr>var_name = key, gensym_number = 0\<rparr>) s"
  apply (simp add: install_symbol_def get_next_symbol_hash_id_def symbol_add_ref_def kind_defs
        split_beta Let_def)
  apply (rule Option.bind_cong[OF refl])
  apply simp
  done

lemma make_variable_generic:
  "make_variable s key = make_generic (VAR \<lparr>var_name = key, gensym_number = 0\<rparr>) s"
  unfolding make_variable_def install_variable make_generic_def find_variable_generic
  by (simp add: kind_of_def)

lemma install_sym_constant:
  "(let (a, pool, unused) = allocate_with_pool (sym_constant_pool s) (next_unused s);
        s1 = s\<lparr>sym_constant_pool := pool, next_unused := unused\<rparr>;
        (hid, s2) = get_next_symbol_hash_id s1;
        s3 = s2\<lparr>symbols := (symbols s2)(a \<mapsto>
               \<lparr>reference_count = 0, hash_id = hid, tc_num = 0, un = SC \<lparr>sc_name = key\<rparr>\<rparr>)\<rparr>
    in symbol_add_ref s3 a \<bind>
       (\<lambda>s4. add_to_hash_table hash_sym_constant (symbols s4) (sym_constant_hash_table s4) a \<bind>
             (\<lambda>ht. Some (a, s4\<lparr>sym_constant_hash_table := ht\<rparr>)))) = install_symbol (SC \<lparr>sc_name = key\<rparr>) s"
  apply (simp add: install_symbol_def get_next_symbol_hash_id_def symbol_add_ref_def kind_defs
        split_beta Let_def)
  apply (rule Option.bind_cong[OF refl])
  apply simp
  done

lemma make_sym_constant_generic:
  "make_sym_constant s key = make_generic (SC \<lparr>sc_name = key\<rparr>) s"
  unfolding make_sym_constant_def install_sym_constant make_generic_def find_sym_constant_generic
  by (simp add: kind_of_def)

lemma install_int_constant:
  "(let (a, pool, unused) = allocate_with_pool (int_constant_pool s) (next_unused s);
        s1 = s\<lparr>int_constant_pool := pool, next_unused := unused\<rparr>;
        (hid, s2) = get_next_symbol_hash_id s1;
        s3 = s2\<lparr>symbols := (symbols s2)(a \<mapsto>
               \<lparr>reference_count = 0, hash_id = hid, tc_num = 0, un = IC key\<rparr>)\<rparr>
    in symbol_add_ref s3 a \<bind>
       (\<lambda>s4. add_to_hash_table hash_int_constant (symbols s4) (int_constant_hash_table s4) a \<bind>
             (\<lambda>ht. Some (a, s4\<lparr>int_constant_hash_table := ht\<rparr>)))) = install_symbol (IC key) s"
  apply (simp add: install_symbol_def get_next_symbol_hash_id_def symbol_add_ref_def kind_defs
        split_beta Let_def)
  apply (rule Option.bind_cong[OF refl])
  apply simp
  done

lemma make_int_constant_generic:
  "make_int_constant s key = make_generic (IC key) s"
  unfolding make_int_constant_def install_int_constant make_generic_def find_int_constant_generic
  by (simp add: kind_of_def)

lemma install_float_constant:
  "(let (a, pool, unused) = allocate_with_pool (float_constant_pool s) (next_unused s);
        s1 = s\<lparr>float_constant_pool := pool, next_unused := unused\<rparr>;
        (hid, s2) = get_next_symbol_hash_id s1;
        s3 = s2\<lparr>symbols := (symbols s2)(a \<mapsto>
               \<lparr>reference_count = 0, hash_id = hid, tc_num = 0, un = FC key\<rparr>)\<rparr>
    in symbol_add_ref s3 a \<bind>
       (\<lambda>s4. add_to_hash_table hash_float_constant (symbols s4) (float_constant_hash_table s4) a \<bind>
             (\<lambda>ht. Some (a, s4\<lparr>float_constant_hash_table := ht\<rparr>)))) = install_symbol (FC key) s"
  apply (simp add: install_symbol_def get_next_symbol_hash_id_def symbol_add_ref_def kind_defs
        split_beta Let_def)
  apply (rule Option.bind_cong[OF refl])
  apply simp
  done

lemma make_float_constant_generic:
  "make_float_constant s key = make_generic (FC key) s"
  unfolding make_float_constant_def install_float_constant make_generic_def find_float_constant_generic
  by (simp add: kind_of_def)

lemma deallocate_symbol_generic:
  "deallocate_symbol s a = do { sy \<leftarrow> symbols s a; deallocate_generic (symbol_type sy) s a }"
  by (auto simp: deallocate_symbol_def deallocate_generic_def kind_defs 
      split: symbol_type.splits intro!: Option.bind_cong)

lemma zero_exponent:
  assumes "double_is_zero v"
  shows "drop_bit 52 v AND mask 11 = 0"
proof (rule bit_eqI)
  fix n
  from assms have z: "v AND mask 63 = 0" by (simp add: double_is_zero_def)
  have "\<not> bit v (52 + n)" if "n < 11"
  proof -
    from z have "\<not> bit (v AND mask 63) (52 + n)" by simp
    with that show ?thesis by (simp add: bit_and_iff bit_mask_iff)
  qed
  then show "bit (drop_bit 52 v AND mask 11) n = bit (0 :: 64 word) n"
    by (auto simp: bit_and_iff bit_mask_iff bit_drop_bit_eq)
qed

lemma double_to_uint32_zero: "double_is_zero v \<Longrightarrow> double_to_uint32 v = 0"
  by (simp add: double_to_uint32_def double_to_int64_def zero_exponent Let_def)

lemma double_eq_cast: "double_eq a b \<Longrightarrow> double_to_uint32 a = double_to_uint32 b"
  by (auto simp: double_eq_def double_to_uint32_zero)

lemma double_eq_sym: "double_eq a b \<Longrightarrow> double_eq b a"
  by (auto simp: double_eq_def)

lemma double_eq_trans: "double_eq a b \<Longrightarrow> double_eq b c \<Longrightarrow> double_eq a c"
  by (auto simp: double_eq_def)

lemma hash_ok_hash_of: "hash_ok (hash_of k)"
proof -
  have un: "hash_of k sy nb = hash_of k sy' nb" if "un sy = un sy'" for sy sy' nb
    using that
    by (cases k) (simp_all add: hash_of_def hash_variable_def hash_identifier_def
        hash_sym_constant_def hash_int_constant_def hash_float_constant_def)
  have tot: "\<exists>r. hash_of k sy nb' = Some r \<and> unat r < 2 ^ nb'"
    if "hash_of k sy nb \<noteq> None" "1 \<le> nb'" "nb' < 32" for sy nb nb'
    using that compress_total[OF that(2,3)]
    by (cases k; cases "un sy") (simp_all add: hash_of_def hash_variable_def hash_identifier_def
        hash_sym_constant_def hash_int_constant_def hash_float_constant_def)
  show ?thesis unfolding hash_ok_def using un tot by blast
qed

lemma hash_of_kind: "hash_of k sy nb = Some r \<Longrightarrow> kind_of (un sy) = k"
  by (cases k; cases "un sy") (simp_all add: hash_of_def hash_variable_def hash_identifier_def
        hash_sym_constant_def hash_int_constant_def hash_float_constant_def kind_of_def)

lemma hash_of_raw: "hash_of (kind_of u) sy nb = raw_of u nb" if "test_of u sy = Some True"
  using that
  by (cases u; cases "un sy")
     (auto simp: hash_of_def hash_variable_def hash_identifier_def
        hash_sym_constant_def hash_int_constant_def hash_float_constant_def kind_of_def
        raw_of_def test_of_def hash_variable_raw_info_def hash_identifier_raw_info_def
        hash_sym_constant_raw_info_def hash_int_constant_raw_info_def
        hash_float_constant_raw_info_def double_eq_cast)

lemma hash_of_new: "hash_of (kind_of u) \<lparr>reference_count = c, hash_id = hid, tc_num = t, un = u\<rparr> nb = raw_of u nb"
  by (cases u)
     (auto simp: hash_of_def hash_variable_def hash_identifier_def
        hash_sym_constant_def hash_int_constant_def hash_float_constant_def kind_of_def
        raw_of_def hash_variable_raw_info_def hash_identifier_raw_info_def
        hash_sym_constant_raw_info_def hash_int_constant_raw_info_def
        hash_float_constant_raw_info_def)

lemma raw_of_total: "1 \<le> nb \<Longrightarrow> nb < 32 \<Longrightarrow> \<exists>r. raw_of u nb = Some r \<and> unat r < 2 ^ nb"
  by (cases u)
     (simp_all add: raw_of_def hash_variable_raw_info_def hash_identifier_raw_info_def
        hash_sym_constant_raw_info_def hash_int_constant_raw_info_def
        hash_float_constant_raw_info_def compress_total)

lemma test_of_defined: "hash_of (kind_of u) sy nb = Some r \<Longrightarrow> \<exists>b. test_of u sy = Some b"
  by (cases u; cases "un sy")
     (simp_all add: hash_of_def hash_variable_def hash_identifier_def
        hash_sym_constant_def hash_int_constant_def hash_float_constant_def kind_of_def test_of_def)

lemma key_ok_of: "key_ok (hash_of (kind_of u)) (raw_of u) (test_of u)"
  unfolding key_ok_def using test_of_defined[of u] hash_of_raw[of u] raw_of_total[of _ u]
  by (metis option.distinct(1) option.exhaust)

lemma test_of_same_key: "test_of u sy = Some True \<longleftrightarrow> kind_of (un sy) = kind_of u \<and> same_key u (un sy)"
  by (cases u; cases "un sy") (auto simp: test_of_def same_key_def kind_of_def)

lemma same_key_sym: "same_key x y \<Longrightarrow> same_key y x"
  by (cases x; cases y) (auto simp: same_key_def double_eq_sym)

lemma same_key_trans: "same_key x y \<Longrightarrow> same_key y z \<Longrightarrow> same_key x z"
  by (cases x; cases y; cases z) (auto simp: same_key_def intro: double_eq_trans)

lemma same_key_kind: "same_key x y \<Longrightarrow> kind_of x = kind_of y"
  by (cases x; cases y) (auto simp: same_key_def kind_of_def)

subsection \<open>Well-formed agents\<close>

lemma table_of_set_table [simp]:
  "table_of k' (set_table k ht s) = (if k' = k then ht else table_of k' s)"
  by (cases k; cases k') (simp_all add: table_of_def set_table_def)

lemma table_of_set_pool [simp]: "table_of k' (set_pool k p s) = table_of k' s"
  by (cases k; cases k') (simp_all add: table_of_def set_pool_def)

lemma pool_of_set_pool [simp]:
  "pool_of k' (set_pool k p s) = (if k' = k then p else pool_of k' s)"
  by (cases k; cases k') (simp_all add: pool_of_def set_pool_def)

lemma pool_of_set_table [simp]: "pool_of k' (set_table k ht s) = pool_of k' s"
  by (cases k; cases k') (simp_all add: pool_of_def set_table_def)

lemma table_of_other_updates [simp]:
  "table_of k (s\<lparr>symbols := m\<rparr>) = table_of k s"
  "table_of k (s\<lparr>next_unused := n\<rparr>) = table_of k s"
  "table_of k (s\<lparr>current_symbol_hash_id := h\<rparr>) = table_of k s"
  "table_of k (s\<lparr>id_counter := c\<rparr>) = table_of k s"
  by (cases k; simp add: table_of_def)+

lemma pool_of_other_updates [simp]:
  "pool_of k (s\<lparr>symbols := m\<rparr>) = pool_of k s"
  "pool_of k (s\<lparr>next_unused := n\<rparr>) = pool_of k s"
  "pool_of k (s\<lparr>current_symbol_hash_id := h\<rparr>) = pool_of k s"
  "pool_of k (s\<lparr>id_counter := c\<rparr>) = pool_of k s"
  by (cases k; simp add: pool_of_def)+

lemma fields_set_table [simp]:
  "symbols (set_table k ht s) = symbols s"
  "next_unused (set_table k ht s) = next_unused s"
  "current_symbol_hash_id (set_table k ht s) = current_symbol_hash_id s"
  "id_counter (set_table k ht s) = id_counter s"
  "printed (set_table k ht s) = printed s"
  "leaked_ids_txt (set_table k ht s) = leaked_ids_txt s"
  "fopen_succeeds (set_table k ht s) = fopen_succeeds s"
  "smem_connected (set_table k ht s) = smem_connected s"
  "smem_id_resets (set_table k ht s) = smem_id_resets s"
  by (cases k; simp add: set_table_def)+

lemma fields_set_pool [simp]:
  "symbols (set_pool k p s) = symbols s"
  "next_unused (set_pool k p s) = next_unused s"
  "current_symbol_hash_id (set_pool k p s) = current_symbol_hash_id s"
  "id_counter (set_pool k p s) = id_counter s"
  "printed (set_pool k p s) = printed s"
  "leaked_ids_txt (set_pool k p s) = leaked_ids_txt s"
  "fopen_succeeds (set_pool k p s) = fopen_succeeds s"
  "smem_connected (set_pool k p s) = smem_connected s"
  "smem_id_resets (set_pool k p s) = smem_id_resets s"
  by (cases k; simp add: set_pool_def)+

lemma free_addrs_other_updates [simp]:
  "free_addrs (s\<lparr>symbols := m\<rparr>) = free_addrs s"
  "free_addrs (s\<lparr>next_unused := n\<rparr>) = free_addrs s"
  "free_addrs (s\<lparr>current_symbol_hash_id := h\<rparr>) = free_addrs s"
  "free_addrs (s\<lparr>id_counter := c\<rparr>) = free_addrs s"
  "free_addrs (set_table k ht s) = free_addrs s"
  by (simp_all add: free_addrs_def) (cases k; simp add: set_table_def)

lemma in_free_addrs: "a \<in> set (free_list (pool_of k s)) \<Longrightarrow> a \<in> set (free_addrs s)"
  by (cases k; simp add: free_addrs_def pool_of_def)

lemma free_addrs_pop:
  assumes "free_list (pool_of k s) = a # rest" "distinct (free_addrs s)"
  shows "distinct (free_addrs (set_pool k (pool_of k s\<lparr>free_list := rest\<rparr>) s))"
    and "set (free_addrs (set_pool k (pool_of k s\<lparr>free_list := rest\<rparr>) s)) = set (free_addrs s) - {a}"
  using assms by (cases k; auto simp: free_addrs_def pool_of_def set_pool_def)+

lemma free_addrs_push:
  assumes "a \<notin> set (free_addrs s)" "distinct (free_addrs s)"
  shows "distinct (free_addrs (set_pool k (free_with_pool (pool_of k s) a) s))"
    and "set (free_addrs (set_pool k (free_with_pool (pool_of k s) a) s)) = insert a (set (free_addrs s))"
  using assms by (cases k; auto simp: free_addrs_def pool_of_def set_pool_def free_with_pool_def)+

lemma free_addrs_same:
  "free_addrs (set_pool k (pool_of k s) s) = free_addrs s"
  by (cases k; simp add: free_addrs_def pool_of_def set_pool_def)

lemma wf_agentD:
  assumes "wf_agent s"
  shows "wf_hash_table (hash_of k) (symbols s) (table_of k s)"
    and "k \<noteq> IDENTIFIER_SYMBOL_TYPE \<Longrightarrow> unique_keys (symbols s) (table_items (table_of k s))"
    and "distinct (free_addrs s)"
    and "a \<in> set (free_addrs s) \<Longrightarrow> symbols s a = None"
    and "next_unused s \<le> a \<Longrightarrow> symbols s a = None"
    and "length (id_counter s) = 26"
    and "a \<in> set (free_addrs s) \<Longrightarrow> a < next_unused s"
  using assms unfolding wf_agent_def by blast+

lemma wf_agentI:
  assumes "\<And>k. wf_hash_table (hash_of k) (symbols s) (table_of k s)"
    and "\<And>k. k \<noteq> IDENTIFIER_SYMBOL_TYPE \<Longrightarrow> unique_keys (symbols s) (table_items (table_of k s))"
    and "distinct (free_addrs s)"
    and "\<And>a. a \<in> set (free_addrs s) \<Longrightarrow> symbols s a = None"
    and "\<And>a. next_unused s \<le> a \<Longrightarrow> symbols s a = None"
    and "length (id_counter s) = 26"
    and "\<And>a. a \<in> set (free_addrs s) \<Longrightarrow> a < next_unused s"
  shows "wf_agent s"
  using assms unfolding wf_agent_def by blast

lemma unique_keysD:
  "unique_keys mem items \<Longrightarrow> a \<in> set items \<Longrightarrow> b \<in> set items \<Longrightarrow> a \<noteq> b \<Longrightarrow>
   mem a = Some x \<Longrightarrow> mem b = Some y \<Longrightarrow> \<not> same_key (un x) (un y)"
  unfolding unique_keys_def by fastforce

lemma unique_keysI:
  assumes "\<And>a b x y. a \<in> set items \<Longrightarrow> b \<in> set items \<Longrightarrow> a \<noteq> b \<Longrightarrow>
     mem a = Some x \<Longrightarrow> mem b = Some y \<Longrightarrow> \<not> same_key (un x) (un y)"
  shows "unique_keys mem items"
  unfolding unique_keys_def using assms by (auto split: option.splits)

lemma wf_items_mem:
  assumes "wf_hash_table h mem ht" "b \<in> set (table_items ht)"
  shows "\<exists>sy r. mem b = Some sy \<and> h sy (log2size ht) = Some r"
  using wf_item_hash[OF assms] by (auto simp: hash_item_Some)

lemma wf_agent_item:
  assumes "wf_agent s" "b \<in> set (table_items (table_of k s))"
  shows "\<exists>sy. symbols s b = Some sy \<and> kind_of (un sy) = k"
proof -
  from wf_items_mem[OF wf_agentD(1)[OF assms(1)] assms(2)] obtain sy r where
    "symbols s b = Some sy" "hash_of k sy (log2size (table_of k s)) = Some r" by blast
  with hash_of_kind[OF this(2)] show ?thesis by simp
qed

lemma unique_keys_frame:
  assumes "unique_keys mem items"
    and "\<And>b. b \<in> set items \<Longrightarrow> map_option un (mem' b) = map_option un (mem b)"
  shows "unique_keys mem' items"
proof (rule unique_keysI)
  fix a b x y
  assume ab: "a \<in> set items" "b \<in> set items" "a \<noteq> b" and m: "mem' a = Some x" "mem' b = Some y"
  from assms(2)[OF ab(1)] m(1) obtain x' where x': "mem a = Some x'" "un x' = un x"
    by (cases "mem a") auto
  from assms(2)[OF ab(2)] m(2) obtain y' where y': "mem b = Some y'" "un y' = un y"
    by (cases "mem b") auto
  from unique_keysD[OF assms(1) ab x'(1) y'(1)] x'(2) y'(2)
  show "\<not> same_key (un x) (un y)" by simp
qed

lemma wf_agent_header:
  assumes "wf_agent s" "symbols s a = Some sy" "un sy' = un sy"
  shows "wf_agent (s\<lparr>symbols := (symbols s)(a \<mapsto> sy')\<rparr>)"
proof (rule wf_agentI)
  let ?m = "(symbols s)(a \<mapsto> sy')"
  have un: "map_option un (?m b) = map_option un (symbols s b)" for b
    using assms(2,3) by simp
  show "wf_hash_table (hash_of k) (symbols (s\<lparr>symbols := ?m\<rparr>)) (table_of k (s\<lparr>symbols := ?m\<rparr>))" for k
    using wf_hash_table_frame[OF hash_ok_hash_of wf_agentD(1)[OF assms(1)], of k ?m] un by simp
  show "unique_keys (symbols (s\<lparr>symbols := ?m\<rparr>)) (table_items (table_of k (s\<lparr>symbols := ?m\<rparr>)))"
    if "k \<noteq> IDENTIFIER_SYMBOL_TYPE" for k
    using unique_keys_frame[OF wf_agentD(2)[OF assms(1) that], of ?m] un by simp
  show "distinct (free_addrs (s\<lparr>symbols := ?m\<rparr>))"
    using wf_agentD(3)[OF assms(1)] by simp
  show "symbols (s\<lparr>symbols := ?m\<rparr>) b = None" if "b \<in> set (free_addrs (s\<lparr>symbols := ?m\<rparr>))" for b
    using wf_agentD(4)[OF assms(1), of b] that assms(2) by auto
  show "symbols (s\<lparr>symbols := ?m\<rparr>) b = None" if "next_unused (s\<lparr>symbols := ?m\<rparr>) \<le> b" for b
    using wf_agentD(5)[OF assms(1), of b] that assms(2) by auto
  show "length (id_counter (s\<lparr>symbols := ?m\<rparr>)) = 26"
    using wf_agentD(6)[OF assms(1)] by simp
  show "b < next_unused (s\<lparr>symbols := ?m\<rparr>)" if "b \<in> set (free_addrs (s\<lparr>symbols := ?m\<rparr>))" for b
    using wf_agentD(7)[OF assms(1), of b] that by simp
qed

lemma symbol_add_ref_Some:
  "symbols s a = Some sy \<Longrightarrow>
   symbol_add_ref s a = Some (s\<lparr>symbols := (symbols s)(a \<mapsto> sy\<lparr>reference_count := reference_count sy + 1\<rparr>)\<rparr>)"
  by (simp add: symbol_add_ref_def)

lemma wf_agent_add_ref:
  assumes "wf_agent s" "symbol_add_ref s a = Some s'"
  shows "wf_agent s'"
proof -
  from assms(2) obtain sy where sy: "symbols s a = Some sy"
    by (auto simp: symbol_add_ref_def bind_eq_Some_conv)
  with assms(2) have "s' = s\<lparr>symbols := (symbols s)(a \<mapsto> sy\<lparr>reference_count := reference_count sy + 1\<rparr>)\<rparr>"
    by (simp add: symbol_add_ref_Some)
  with wf_agent_header[OF assms(1) sy, of "sy\<lparr>reference_count := reference_count sy + 1\<rparr>"]
  show ?thesis by simp
qed

lemma allocate_spec:
  assumes "wf_agent s" "allocate_with_pool (pool_of k s) (next_unused s) = (a, pool, unused)"
  shows "symbols s a = None \<and> a < unused \<and> next_unused s \<le> unused \<and>
      distinct (free_addrs (set_pool k pool s)) \<and>
      set (free_addrs (set_pool k pool s)) = set (free_addrs s) - {a}"
proof (cases "free_list (pool_of k s)")
  case Nil
  with assms(2) have eq: "a = next_unused s" "pool = pool_of k s" "unused = next_unused s + 1"
    by (simp_all add: allocate_with_pool_def)
  have "symbols s a = None" using wf_agentD(5)[OF assms(1), of a] eq by simp
  moreover have "a \<notin> set (free_addrs s)"
    using wf_agentD(7)[OF assms(1), of a] eq by auto
  ultimately show ?thesis
    using eq wf_agentD(3)[OF assms(1)] by (simp add: free_addrs_same)
next
  case (Cons a' rest)
  with assms(2) have eq: "a = a'" "pool = pool_of k s\<lparr>free_list := rest\<rparr>" "unused = next_unused s"
    by (simp_all add: allocate_with_pool_def)
  have inl: "a \<in> set (free_addrs s)"
    using in_free_addrs[of a k s] Cons eq by simp
  from free_addrs_pop[OF Cons wf_agentD(3)[OF assms(1)]]
  have "distinct (free_addrs (set_pool k pool s))"
    "set (free_addrs (set_pool k pool s)) = set (free_addrs s) - {a}"
    unfolding eq by simp_all
  with wf_agentD(4)[OF assms(1) inl] wf_agentD(7)[OF assms(1) inl] eq(3)
  show ?thesis by simp
qed

lemma not_item_if_None:
  assumes "wf_agent s" "symbols s a = None"
  shows "a \<notin> set (table_items (table_of k s))"
  using wf_agent_item[OF assms(1), of a k] assms(2) by auto

lemma install_symbol_spec:
  assumes wf: "wf_agent s"
    and room: "count (table_of (kind_of u) s) < 2 ^ 32"
    and fresh: "kind_of u \<noteq> IDENTIFIER_SYMBOL_TYPE \<Longrightarrow>
       \<forall>b \<in> set (table_items (table_of (kind_of u) s)). \<forall>sb. symbols s b = Some sb \<longrightarrow> \<not> same_key u (un sb)"
  defines "nsy \<equiv> \<lparr>reference_count = 1, hash_id = current_symbol_hash_id s + 137, tc_num = 0, un = u\<rparr>"
  shows "\<exists>a pool unused ht.
     allocate_with_pool (pool_of (kind_of u) s) (next_unused s) = (a, pool, unused) \<and>
     symbols s a = None \<and>
     install_symbol u s =
       Some (a, (set_table (kind_of u) ht (set_pool (kind_of u) pool s))
                  \<lparr>next_unused := unused, current_symbol_hash_id := current_symbol_hash_id s + 137,
                   symbols := (symbols s)(a \<mapsto> nsy)\<rparr>) \<and>
     set (table_items ht) = insert a (set (table_items (table_of (kind_of u) s))) \<and>
     count ht = Suc (count (table_of (kind_of u) s)) \<and>
     wf_agent ((set_table (kind_of u) ht (set_pool (kind_of u) pool s))
                  \<lparr>next_unused := unused, current_symbol_hash_id := current_symbol_hash_id s + 137,
                   symbols := (symbols s)(a \<mapsto> nsy)\<rparr>)"
proof -
  let ?k = "kind_of u"
  obtain a pool unused where al: "allocate_with_pool (pool_of ?k s) (next_unused s) = (a, pool, unused)"
    by (metis prod_cases3)
  from allocate_spec[OF wf al] have a: "symbols s a = None" "a < unused" "next_unused s \<le> unused"
    "distinct (free_addrs (set_pool ?k pool s))"
    "set (free_addrs (set_pool ?k pool s)) = set (free_addrs s) - {a}" by simp_all
  let ?m = "(symbols s)(a \<mapsto> nsy)"
  have notin: "a \<notin> set (table_items (table_of k s))" for k
    by (rule not_item_if_None[OF wf a(1)])
  have frame: "map_option un (?m b) = map_option un (symbols s b)" if "b \<in> set (table_items (table_of k s))" for b k
    using that notin[of k] by auto
  have wfm: "wf_hash_table (hash_of k) ?m (table_of k s)" for k
    using wf_hash_table_frame[OF hash_ok_hash_of wf_agentD(1)[OF wf], of k ?m] frame[of _ k] by blast
  have l: "1 \<le> log2size (table_of ?k s)" "log2size (table_of ?k s) < 32"
    using wf_agentD(1)[OF wf, of ?k] by (simp_all add: wf_hash_table_def)
  from raw_of_total[OF l, of u] obtain r where r: "raw_of u (log2size (table_of ?k s)) = Some r" by blast
  have "hash_item (hash_of ?k) ?m a (log2size (table_of ?k s)) = Some (unat r)"
    using r by (simp add: hash_item_def nsy_def hash_of_new)
  from add_to_hash_table_spec[OF hash_ok_hash_of wfm notin this room]
  obtain ht where ht: "add_to_hash_table (hash_of ?k) ?m (table_of ?k s) a = Some ht"
    "wf_hash_table (hash_of ?k) ?m ht"
    "set (table_items ht) = insert a (set (table_items (table_of ?k s)))"
    "count ht = Suc (count (table_of ?k s))" by blast
  let ?s' = "(set_table ?k ht (set_pool ?k pool s))
                  \<lparr>next_unused := unused, current_symbol_hash_id := current_symbol_hash_id s + 137,
                   symbols := ?m\<rparr>"
  have inst: "install_symbol u s = Some (a, ?s')"
    using al ht(1) by (simp add: install_symbol_def nsy_def)
  have "wf_agent ?s'"
  proof (rule wf_agentI)
    show "wf_hash_table (hash_of k) (symbols ?s') (table_of k ?s')" for k
      using ht(2) wfm[of k] by simp
    show "unique_keys (symbols ?s') (table_items (table_of k ?s'))" if k: "k \<noteq> IDENTIFIER_SYMBOL_TYPE" for k
    proof (cases "k = ?k")
      case False
      then show ?thesis
        using unique_keys_frame[OF wf_agentD(2)[OF wf k], of ?m] frame[of _ k] by simp
    next
      case True
      have "unique_keys ?m (table_items ht)"
      proof (rule unique_keysI)
        fix b c x y
        assume bc: "b \<in> set (table_items ht)" "c \<in> set (table_items ht)" "b \<noteq> c"
          and m: "?m b = Some x" "?m c = Some y"
        from fresh k True have fr: "\<And>d sd. d \<in> set (table_items (table_of ?k s)) \<Longrightarrow>
            symbols s d = Some sd \<Longrightarrow> \<not> same_key u (un sd)" by blast
        consider "b = a" "c \<noteq> a" | "c = a" "b \<noteq> a" | "b \<noteq> a" "c \<noteq> a" using bc(3) by blast
        then show "\<not> same_key (un x) (un y)"
        proof cases
          case 1
          with bc ht(3) m have "c \<in> set (table_items (table_of ?k s))" "symbols s c = Some y" "un x = u"
            by (auto simp: nsy_def)
          with fr show ?thesis by blast
        next
          case 2
          with bc ht(3) m have "b \<in> set (table_items (table_of ?k s))" "symbols s b = Some x" "un y = u"
            by (auto simp: nsy_def)
          with fr same_key_sym show ?thesis by blast
        next
          case 3
          with bc ht(3) m have "b \<in> set (table_items (table_of ?k s))" "symbols s b = Some x"
            "c \<in> set (table_items (table_of ?k s))" "symbols s c = Some y"
            by auto
          with unique_keysD[OF wf_agentD(2)[OF wf, of ?k]] k True bc(3) show ?thesis by blast
        qed
      qed
      with True show ?thesis by simp
    qed
    show "distinct (free_addrs ?s')" using a(4) by simp
    show "symbols ?s' b = None" if "b \<in> set (free_addrs ?s')" for b
      using that a(5) wf_agentD(4)[OF wf, of b] by auto
    show "symbols ?s' b = None" if "next_unused ?s' \<le> b" for b
      using that a(2,3) wf_agentD(5)[OF wf, of b] by auto
    show "length (id_counter ?s') = 26" using wf_agentD(6)[OF wf] by simp
    show "b < next_unused ?s'" if "b \<in> set (free_addrs ?s')" for b
      using that a(3,5) wf_agentD(7)[OF wf, of b] by auto
  qed
  with al a(1) inst ht(3,4) show ?thesis by blast
qed

subsection \<open>Creation, release and sequences of operations\<close>

lemma find_none_fresh:
  assumes wf: "wf_agent s"
    and f: "find_generic (raw_of u) (test_of u) (symbols s) (table_of (kind_of u) s) = Some None"
  shows "\<forall>b \<in> set (table_items (table_of (kind_of u) s)). \<forall>sb. symbols s b = Some sb \<longrightarrow> \<not> same_key u (un sb)"
proof (intro ballI allI impI)
  fix b sb
  assume b: "b \<in> set (table_items (table_of (kind_of u) s))" "symbols s b = Some sb"
  from wf_agent_item[OF wf b(1)] b(2) have k: "kind_of (un sb) = kind_of u" by simp
  from find_generic_NoneD[OF wf_agentD(1)[OF wf] key_ok_of f b]
  have "test_of u sb \<noteq> Some True" .
  with k show "\<not> same_key u (un sb)" by (simp add: test_of_same_key)
qed

lemma make_generic_found:
  assumes wf: "wf_agent s"
    and f: "find_generic (raw_of u) (test_of u) (symbols s) (table_of (kind_of u) s) = Some (Some a)"
  shows "\<exists>sy. symbols s a = Some sy \<and> a \<in> set (table_items (table_of (kind_of u) s)) \<and>
           same_key u (un sy) \<and>
           make_generic u s =
             Some (a, s\<lparr>symbols := (symbols s)(a \<mapsto> sy\<lparr>reference_count := reference_count sy + 1\<rparr>)\<rparr>)"
proof -
  from find_generic_SomeD[OF wf_agentD(1)[OF wf] key_ok_of f] obtain sy where
    sy: "a \<in> set (table_items (table_of (kind_of u) s))" "symbols s a = Some sy"
        "test_of u sy = Some True" by blast
  then have "same_key u (un sy)" by (simp add: test_of_same_key)
  moreover have "make_generic u s =
     Some (a, s\<lparr>symbols := (symbols s)(a \<mapsto> sy\<lparr>reference_count := reference_count sy + 1\<rparr>)\<rparr>)"
    using f sy(2) by (simp add: make_generic_def symbol_add_ref_Some)
  ultimately show ?thesis using sy by blast
qed

lemma make_generic_existing:
  assumes wf: "wf_agent s" and k: "kind_of u \<noteq> IDENTIFIER_SYMBOL_TYPE"
    and a: "a \<in> set (table_items (table_of (kind_of u) s))" "symbols s a = Some sy"
    and same: "same_key u (un sy)"
  shows "find_generic (raw_of u) (test_of u) (symbols s) (table_of (kind_of u) s) = Some (Some a)"
    and "make_generic u s =
           Some (a, s\<lparr>symbols := (symbols s)(a \<mapsto> sy\<lparr>reference_count := reference_count sy + 1\<rparr>)\<rparr>)"
proof -
  from wf_agent_item[OF wf a(1)] a(2) have ka: "kind_of (un sy) = kind_of u" by simp
  with same have t: "test_of u sy = Some True" by (simp add: test_of_same_key)
  have others: "test_of u sb \<noteq> Some True"
    if "b \<in> set (table_items (table_of (kind_of u) s))" "b \<noteq> a" "symbols s b = Some sb" for b sb
  proof
    assume "test_of u sb = Some True"
    then have "same_key u (un sb)" by (simp add: test_of_same_key)
    with same have "same_key (un sy) (un sb)" using same_key_sym same_key_trans by blast
    with unique_keysD[OF wf_agentD(2)[OF wf k] a(1) that(1) _ a(2) that(3)] that(2)
    show False by blast
  qed
  show f: "find_generic (raw_of u) (test_of u) (symbols s) (table_of (kind_of u) s) = Some (Some a)"
    by (rule find_generic_unique[OF wf_agentD(1)[OF wf] key_ok_of a t others])
  show "make_generic u s =
           Some (a, s\<lparr>symbols := (symbols s)(a \<mapsto> sy\<lparr>reference_count := reference_count sy + 1\<rparr>)\<rparr>)"
    using f a(2) by (simp add: make_generic_def symbol_add_ref_Some)
qed

lemma make_generic_new:
  assumes "find_generic (raw_of u) (test_of u) (symbols s) (table_of (kind_of u) s) = Some None"
  shows "make_generic u s = install_symbol u s"
  using assms by (simp add: make_generic_def)

lemma find_generic_cases:
  assumes wf: "wf_agent s"
  obtains (absent) "find_generic (raw_of u) (test_of u) (symbols s) (table_of (kind_of u) s) = Some None"
  | (present) a where "find_generic (raw_of u) (test_of u) (symbols s) (table_of (kind_of u) s) = Some (Some a)"
proof -
  from find_generic_total[OF wf_agentD(1)[OF wf] key_ok_of] obtain r where
    "find_generic (raw_of u) (test_of u) (symbols s) (table_of (kind_of u) s) = Some r" by blast
  with that show ?thesis by (cases r) auto
qed

lemma unique_keys_subset:
  assumes "unique_keys mem items" "set items' \<subseteq> set items"
  shows "unique_keys mem items'"
  using assms unfolding unique_keys_def by blast

lemma remove_Some_item:
  assumes "remove_from_hash_table h mem ht a = Some ht'"
  shows "a \<in> set (table_items ht)"
proof -
  from assms obtain i where "i < length (buckets ht)" "a \<in> set (buckets ht ! i)"
    by (auto simp: remove_from_hash_table_def bind_eq_Some_conv split: if_splits)
  then have "a \<in> set (concat (buckets ht))" using in_concat_nth[of a "buckets ht"] by blast
  then show ?thesis by (simp add: table_items_def)
qed

lemma deallocate_generic_spec:
  assumes wf: "wf_agent s" and a: "a \<in> set (table_items (table_of k s))"
  shows "\<exists>ht. remove_from_hash_table (hash_of k) (symbols s) (table_of k s) a = Some ht \<and>
           deallocate_generic k s a =
             Some ((set_table k ht (set_pool k (free_with_pool (pool_of k s) a) s))
                     \<lparr>symbols := (symbols s)(a := None)\<rparr>) \<and>
           set (table_items ht) = set (table_items (table_of k s)) - {a} \<and>
           count ht = count (table_of k s) - 1 \<and> log2size ht = log2size (table_of k s) \<and>
           wf_agent ((set_table k ht (set_pool k (free_with_pool (pool_of k s) a) s))
                     \<lparr>symbols := (symbols s)(a := None)\<rparr>)"
proof -
  from remove_from_hash_table_spec[OF wf_agentD(1)[OF wf] a] obtain ht where
    ht: "remove_from_hash_table (hash_of k) (symbols s) (table_of k s) a = Some ht"
      "wf_hash_table (hash_of k) (symbols s) ht"
      "set (table_items ht) = set (table_items (table_of k s)) - {a}"
      "log2size ht = log2size (table_of k s)" "count ht = count (table_of k s) - 1" by blast
  let ?m = "(symbols s)(a := None)"
  let ?s' = "(set_table k ht (set_pool k (free_with_pool (pool_of k s) a) s))\<lparr>symbols := ?m\<rparr>"
  from wf_agent_item[OF wf a] obtain sy where sy: "symbols s a = Some sy" "kind_of (un sy) = k" by blast
  have other: "a \<notin> set (table_items (table_of k' s))" if "k' \<noteq> k" for k'
    using wf_agent_item[OF wf, of a k'] sy that by auto
  have nf: "a \<notin> set (free_addrs s)" using wf_agentD(4)[OF wf, of a] sy by auto
  have lt: "a < next_unused s"
  proof (rule ccontr)
    assume "\<not> a < next_unused s"
    with wf_agentD(5)[OF wf, of a] sy show False by simp
  qed
  have "wf_agent ?s'"
  proof (rule wf_agentI)
    show "wf_hash_table (hash_of k') (symbols ?s') (table_of k' ?s')" for k'
    proof (cases "k' = k")
      case True
      have "wf_hash_table (hash_of k) ?m ht"
        by (rule wf_hash_table_frame[OF hash_ok_hash_of ht(2)]) (simp add: ht(3))
      with True show ?thesis by simp
    next
      case False
      have "wf_hash_table (hash_of k') ?m (table_of k' s)"
        by (rule wf_hash_table_frame[OF hash_ok_hash_of wf_agentD(1)[OF wf]]) (use other[OF False] in auto)
      with False show ?thesis by simp
    qed
    show "unique_keys (symbols ?s') (table_items (table_of k' ?s'))" if k': "k' \<noteq> IDENTIFIER_SYMBOL_TYPE" for k'
    proof (cases "k' = k")
      case True
      have "unique_keys (symbols s) (table_items ht)"
        using unique_keys_subset[OF wf_agentD(2)[OF wf k'], of "table_items ht"] ht(3) True by auto
      then have "unique_keys ?m (table_items ht)"
        by (rule unique_keys_frame) (simp add: ht(3))
      with True show ?thesis by simp
    next
      case False
      have "unique_keys ?m (table_items (table_of k' s))"
        by (rule unique_keys_frame[OF wf_agentD(2)[OF wf k']]) (use other[OF False] in auto)
      with False show ?thesis by simp
    qed
    show "distinct (free_addrs ?s')"
      using free_addrs_push(1)[OF nf wf_agentD(3)[OF wf], of k] by simp
    show "symbols ?s' b = None" if "b \<in> set (free_addrs ?s')" for b
      using that free_addrs_push(2)[OF nf wf_agentD(3)[OF wf], of k] wf_agentD(4)[OF wf, of b] by auto
    show "symbols ?s' b = None" if "next_unused ?s' \<le> b" for b
      using that wf_agentD(5)[OF wf, of b] by auto
    show "length (id_counter ?s') = 26" using wf_agentD(6)[OF wf] by simp
    show "b < next_unused ?s'" if "b \<in> set (free_addrs ?s')" for b
      using that free_addrs_push(2)[OF nf wf_agentD(3)[OF wf], of k] wf_agentD(7)[OF wf, of b] lt by auto
  qed
  moreover have "deallocate_generic k s a = Some ?s'"
    using ht(1) by (simp add: deallocate_generic_def)
  ultimately show ?thesis using ht by blast
qed

lemma symbol_type_kind: "symbol_type sy = kind_of (un sy)"
  by (simp add: symbol_type_def kind_of_def split: symbol_union.splits)

lemma wf_agent_deallocate:
  assumes "wf_agent s" "deallocate_symbol s a = Some s'"
  shows "wf_agent s'"
proof -
  from assms(2) obtain sy where sy: "symbols s a = Some sy"
    "deallocate_generic (symbol_type sy) s a = Some s'"
    by (auto simp: deallocate_symbol_generic bind_eq_Some_conv)
  from sy(2) obtain ht where "remove_from_hash_table (hash_of (symbol_type sy)) (symbols s) (table_of (symbol_type sy) s) a = Some ht"
    by (auto simp: deallocate_generic_def bind_eq_Some_conv)
  from remove_Some_item[OF this] have "a \<in> set (table_items (table_of (symbol_type sy) s))" .
  from deallocate_generic_spec[OF assms(1) this] sy(2) show ?thesis by auto
qed

lemma wf_agent_remove_ref:
  assumes "wf_agent s" "symbol_remove_ref s a = Some s'"
  shows "wf_agent s'"
proof -
  from assms(2) obtain sy where sy: "symbols s a = Some sy"
    by (auto simp: symbol_remove_ref_def bind_eq_Some_conv)
  let ?s1 = "s\<lparr>symbols := (symbols s)(a \<mapsto> sy\<lparr>reference_count := reference_count sy - 1\<rparr>)\<rparr>"
  have wf1: "wf_agent ?s1"
    by (rule wf_agent_header[OF assms(1) sy]) simp
  show ?thesis
  proof (cases "reference_count sy - 1 = 0")
    case True
    with assms(2) sy have "deallocate_symbol ?s1 a = Some s'"
      by (simp add: symbol_remove_ref_def Let_def)
    from wf_agent_deallocate[OF wf1 this] show ?thesis .
  next
    case False
    with assms(2) sy have "s' = ?s1" by (simp add: symbol_remove_ref_def Let_def)
    with wf1 show ?thesis by simp
  qed
qed

lemma count_le_largest: "count (table_of k s) \<le> largest_count s"
  by (cases k) (simp_all add: table_of_def largest_count_def)

lemma largest_countI:
  assumes "\<And>k. count (table_of k s) \<le> n"
  shows "largest_count s \<le> n"
  using assms[of VARIABLE_SYMBOL_TYPE] assms[of IDENTIFIER_SYMBOL_TYPE]
    assms[of SYM_CONSTANT_SYMBOL_TYPE] assms[of INT_CONSTANT_SYMBOL_TYPE]
    assms[of FLOAT_CONSTANT_SYMBOL_TYPE]
  by (simp add: table_of_def largest_count_def)

lemma normalize_letter_upper: "isupper (normalize_letter c)"
  by (auto simp: normalize_letter_def isalpha_def isupper_def islower_def toupper_def)

lemma counter_index_bound: "isupper c \<Longrightarrow> counter_index c < 26 \<and> \<not> (of_char c :: nat) < of_char CHR ''A''"
  by (auto simp: isupper_def counter_index_def)

lemma make_new_identifier_generic:
  assumes "length (id_counter s) = 26"
  shows "make_new_identifier s letter lvl number =
     install_symbol
       (ID \<lparr>name_letter = normalize_letter letter,
            name_number = fst (counted (id_counter s) (counter_index (normalize_letter letter)) number),
            level = lvl, promotion_level = lvl, smem_lti = 0\<rparr>)
       (s\<lparr>id_counter := snd (counted (id_counter s) (counter_index (normalize_letter letter)) number)\<rparr>)"
proof -
  have b: "counter_index (normalize_letter letter) < 26"
    "\<not> (of_char (normalize_letter letter) :: nat) < of_char CHR ''A''"
    using counter_index_bound[OF normalize_letter_upper, of letter] by simp_all
  consider "number = 0" | "number \<noteq> 0" "number \<ge> id_counter s ! counter_index (normalize_letter letter)"
    | "number \<noteq> 0" "\<not> number \<ge> id_counter s ! counter_index (normalize_letter letter)"
    by blast
  then show ?thesis
  proof cases
    case 1
    with b assms show ?thesis
      apply (simp add: make_new_identifier_def install_symbol_def get_next_symbol_hash_id_def
          symbol_add_ref_def kind_defs split_beta Let_def counted_def del: of_char_Char)
      apply (rule Option.bind_cong[OF refl])
      apply simp
      done
  next
    case 2
    with b assms show ?thesis
      apply (simp add: make_new_identifier_def install_symbol_def get_next_symbol_hash_id_def
          symbol_add_ref_def kind_defs split_beta Let_def counted_def del: of_char_Char)
      apply (rule Option.bind_cong[OF refl])
      apply simp
      done
  next
    case 3
    with b assms show ?thesis
      apply (simp add: make_new_identifier_def install_symbol_def get_next_symbol_hash_id_def
          symbol_add_ref_def kind_defs split_beta Let_def counted_def del: of_char_Char)
      apply (rule Option.bind_cong[OF refl])
      apply simp
      done
  qed
qed

lemma wf_agent_counters:
  assumes "wf_agent s" "length c = 26"
  shows "wf_agent (s\<lparr>id_counter := c\<rparr>)"
  using assms unfolding wf_agent_def by simp

lemma install_symbol_wf:
  assumes wf: "wf_agent s" and room: "largest_count s < 2 ^ 32"
    and fresh: "kind_of u \<noteq> IDENTIFIER_SYMBOL_TYPE \<Longrightarrow>
       \<forall>b \<in> set (table_items (table_of (kind_of u) s)). \<forall>sb. symbols s b = Some sb \<longrightarrow> \<not> same_key u (un sb)"
  shows "\<exists>a s'. install_symbol u s = Some (a, s') \<and> wf_agent s' \<and>
           largest_count s' \<le> Suc (largest_count s)"
proof -
  have r: "count (table_of (kind_of u) s) < 2 ^ 32"
    using count_le_largest[of "kind_of u" s] room by simp
  from install_symbol_spec[OF wf r fresh] obtain a pool unused ht where
    i: "install_symbol u s =
       Some (a, (set_table (kind_of u) ht (set_pool (kind_of u) pool s))
                  \<lparr>next_unused := unused, current_symbol_hash_id := current_symbol_hash_id s + 137,
                   symbols := (symbols s)(a \<mapsto> \<lparr>reference_count = 1, hash_id = current_symbol_hash_id s + 137, tc_num = 0, un = u\<rparr>)\<rparr>)"
     "count ht = Suc (count (table_of (kind_of u) s))"
     "wf_agent ((set_table (kind_of u) ht (set_pool (kind_of u) pool s))
                  \<lparr>next_unused := unused, current_symbol_hash_id := current_symbol_hash_id s + 137,
                   symbols := (symbols s)(a \<mapsto> \<lparr>reference_count = 1, hash_id = current_symbol_hash_id s + 137, tc_num = 0, un = u\<rparr>)\<rparr>)"
    by blast
  let ?s' = "(set_table (kind_of u) ht (set_pool (kind_of u) pool s))
                  \<lparr>next_unused := unused, current_symbol_hash_id := current_symbol_hash_id s + 137,
                   symbols := (symbols s)(a \<mapsto> \<lparr>reference_count = 1, hash_id = current_symbol_hash_id s + 137, tc_num = 0, un = u\<rparr>)\<rparr>"
  have "count (table_of k ?s') \<le> Suc (largest_count s)" for k
    using count_le_largest[of k s] count_le_largest[of "kind_of u" s] i(2) by simp
  then have "largest_count ?s' \<le> Suc (largest_count s)" by (rule largest_countI)
  with i(1,3) show ?thesis by blast
qed

lemma largest_count_symbols [simp]: "largest_count (s\<lparr>symbols := m\<rparr>) = largest_count s"
  by (simp add: largest_count_def)

lemma largest_count_counters [simp]: "largest_count (s\<lparr>id_counter := c\<rparr>) = largest_count s"
  by (simp add: largest_count_def)

lemma make_generic_wf:
  assumes wf: "wf_agent s" and room: "largest_count s < 2 ^ 32"
    and k: "kind_of u \<noteq> IDENTIFIER_SYMBOL_TYPE"
  shows "\<exists>a s'. make_generic u s = Some (a, s') \<and> wf_agent s' \<and>
           largest_count s' \<le> Suc (largest_count s)"
proof -
  consider (absent) "find_generic (raw_of u) (test_of u) (symbols s) (table_of (kind_of u) s) = Some None"
    | (present) a where "find_generic (raw_of u) (test_of u) (symbols s) (table_of (kind_of u) s) = Some (Some a)"
    by (rule find_generic_cases[OF wf, of u])
  then show ?thesis
  proof cases
  case absent
  from install_symbol_wf[OF wf room find_none_fresh[OF wf absent]] make_generic_new[OF absent]
  show ?thesis by simp
next
  case (present a)
  from make_generic_found[OF wf present] obtain sy where
    sy: "symbols s a = Some sy"
      "make_generic u s =
         Some (a, s\<lparr>symbols := (symbols s)(a \<mapsto> sy\<lparr>reference_count := reference_count sy + 1\<rparr>)\<rparr>)"
    by blast
  have "wf_agent (s\<lparr>symbols := (symbols s)(a \<mapsto> sy\<lparr>reference_count := reference_count sy + 1\<rparr>)\<rparr>)"
    by (rule wf_agent_header[OF wf sy(1)]) simp
  with sy(2) show ?thesis by simp
  qed
qed

lemma counted_length: "length (snd (counted c i n)) = length c"
  by (simp add: counted_def)

lemma make_new_identifier_wf:
  assumes wf: "wf_agent s" and room: "largest_count s < 2 ^ 32"
  shows "\<exists>a s'. make_new_identifier s letter lvl number = Some (a, s') \<and> wf_agent s' \<and>
           largest_count s' \<le> Suc (largest_count s)"
proof -
  let ?c = "snd (counted (id_counter s) (counter_index (normalize_letter letter)) number)"
  let ?u = "ID \<lparr>name_letter = normalize_letter letter,
            name_number = fst (counted (id_counter s) (counter_index (normalize_letter letter)) number),
            level = lvl, promotion_level = lvl, smem_lti = 0\<rparr>"
  have wf': "wf_agent (s\<lparr>id_counter := ?c\<rparr>)"
    by (rule wf_agent_counters[OF wf]) (simp add: counted_length wf_agentD(6)[OF wf])
  have room': "largest_count (s\<lparr>id_counter := ?c\<rparr>) < 2 ^ 32" using room by simp
  have "kind_of ?u = IDENTIFIER_SYMBOL_TYPE" by (simp add: kind_of_def)
  with install_symbol_wf[OF wf' room', of ?u]
  show ?thesis
    unfolding make_new_identifier_generic[OF wf_agentD(6)[OF wf]] by simp
qed

lemma remove_ref_counts:
  assumes "wf_agent s" "symbol_remove_ref s a = Some s'"
  shows "largest_count s' \<le> largest_count s"
proof -
  from assms(2) obtain sy where sy: "symbols s a = Some sy"
    by (auto simp: symbol_remove_ref_def bind_eq_Some_conv)
  let ?s1 = "s\<lparr>symbols := (symbols s)(a \<mapsto> sy\<lparr>reference_count := reference_count sy - 1\<rparr>)\<rparr>"
  have wf1: "wf_agent ?s1"
    by (rule wf_agent_header[OF assms(1) sy]) simp
  show ?thesis
  proof (cases "reference_count sy - 1 = 0")
    case True
    with assms(2) sy have d: "deallocate_symbol ?s1 a = Some s'"
      by (simp add: symbol_remove_ref_def Let_def)
    then obtain sy1 where sy1: "symbols ?s1 a = Some sy1"
      "deallocate_generic (symbol_type sy1) ?s1 a = Some s'"
      by (auto simp: deallocate_symbol_generic bind_eq_Some_conv)
    let ?k = "symbol_type sy1"
    from sy1(2) obtain ht where "remove_from_hash_table (hash_of ?k) (symbols ?s1) (table_of ?k ?s1) a = Some ht"
      by (auto simp: deallocate_generic_def bind_eq_Some_conv)
    from remove_Some_item[OF this] have "a \<in> set (table_items (table_of ?k ?s1))" .
    from deallocate_generic_spec[OF wf1 this] sy1(2) obtain ht where
      s': "s' = (set_table ?k ht (set_pool ?k (free_with_pool (pool_of ?k ?s1) a) ?s1))
                     \<lparr>symbols := (symbols ?s1)(a := None)\<rparr>"
      "count ht = count (table_of ?k ?s1) - 1" by auto
    have "count ht \<le> count (table_of ?k s)" using s'(2) by simp
    then have "count (table_of k s') \<le> largest_count s" for k
      using count_le_largest[of k s] count_le_largest[of ?k s] s'(1) by simp
    then show ?thesis by (rule largest_countI)
  next
    case False
    with assms(2) sy have "s' = ?s1" by (simp add: symbol_remove_ref_def Let_def)
    then show ?thesis by simp
  qed
qed

lemma apply_op_wf:
  assumes wf: "wf_agent s" and room: "largest_count s < 2 ^ 32" and op: "apply_op s x = Some s'"
  shows "wf_agent s' \<and> largest_count s' \<le> Suc (largest_count s)"
proof (cases x)
  case (Make_variable name)
  with op make_generic_wf[OF wf room, of "VAR \<lparr>var_name = name, gensym_number = 0\<rparr>"]
  show ?thesis by (auto simp: make_variable_generic kind_of_def)
next
  case (Make_sym_constant name)
  with op make_generic_wf[OF wf room, of "SC \<lparr>sc_name = name\<rparr>"]
  show ?thesis by (auto simp: make_sym_constant_generic kind_of_def)
next
  case (Make_int_constant v)
  with op make_generic_wf[OF wf room, of "IC v"]
  show ?thesis by (auto simp: make_int_constant_generic kind_of_def)
next
  case (Make_float_constant v)
  with op make_generic_wf[OF wf room, of "FC v"]
  show ?thesis by (auto simp: make_float_constant_generic kind_of_def)
next
  case (Make_new_identifier letter lvl number)
  with op make_new_identifier_wf[OF wf room, of letter lvl number]
  show ?thesis by auto
next
  case (Symbol_add_ref a)
  with op have a: "symbol_add_ref s a = Some s'" by simp
  then obtain sy where "symbols s a = Some sy" by (auto simp: symbol_add_ref_def bind_eq_Some_conv)
  with a have "largest_count s' = largest_count s" by (auto simp: symbol_add_ref_Some)
  with wf_agent_add_ref[OF wf a] show ?thesis by simp
next
  case (Symbol_remove_ref a)
  with op have a: "symbol_remove_ref s a = Some s'" by simp
  from wf_agent_remove_ref[OF wf a] remove_ref_counts[OF wf a] show ?thesis by simp
qed

lemma run_ops_wf:
  "wf_agent s \<Longrightarrow> largest_count s + length ops \<le> 2 ^ 32 \<Longrightarrow> run_ops s ops = Some s' \<Longrightarrow> wf_agent s'"
proof (induction ops arbitrary: s)
  case Nil
  then show ?case by simp
next
  case (Cons x xs)
  from Cons.prems(3) obtain s1 where s1: "apply_op s x = Some s1" "run_ops s1 xs = Some s'"
    by (auto split: option.splits)
  from Cons.prems(2) have "largest_count s < 2 ^ 32" by simp
  from apply_op_wf[OF Cons.prems(1) this s1(1)] have "wf_agent s1" "largest_count s1 \<le> Suc (largest_count s)"
    by simp_all
  with Cons.prems(2) have "largest_count s1 + length xs \<le> 2 ^ 32" by simp
  from Cons.IH[OF \<open>wf_agent s1\<close> this s1(2)] show ?case .
qed

lemma run_ops_wf_bounded:
  "wf_agent s \<Longrightarrow>
   (\<forall>i < length ops. \<forall>t. run_ops s (take i ops) = Some t \<longrightarrow> largest_count t < 2 ^ 32) \<Longrightarrow>
   run_ops s ops = Some s' \<Longrightarrow> wf_agent s'"
proof (induction ops arbitrary: s)
  case Nil
  then show ?case by simp
next
  case (Cons x xs)
  from Cons.prems(3) obtain s1 where s1: "apply_op s x = Some s1" "run_ops s1 xs = Some s'"
    by (auto split: option.splits)
  from Cons.prems(2)[rule_format, of 0 s] have room: "largest_count s < 2 ^ 32" by simp
  from apply_op_wf[OF Cons.prems(1) room s1(1)] have wf1: "wf_agent s1" by simp
  have "\<forall>i < length xs. \<forall>t. run_ops s1 (take i xs) = Some t \<longrightarrow> largest_count t < 2 ^ 32"
  proof (intro allI impI)
    fix i t
    assume i: "i < length xs" and t: "run_ops s1 (take i xs) = Some t"
    from t s1(1) have "run_ops s (take (Suc i) (x # xs)) = Some t" by simp
    with Cons.prems(2)[rule_format, of "Suc i" t] i show "largest_count t < 2 ^ 32" by simp
  qed
  from Cons.IH[OF wf1 this s1(2)] show ?case .
qed

lemma wf_agent_initial: "wf_agent initial_agent"
proof (rule wf_agentI)
  have t: "table_of k initial_agent = make_hash_table 0" for k
    by (cases k) (simp_all add: table_of_def initial_agent_def blank_agent_def)
  show "wf_hash_table (hash_of k) (symbols initial_agent) (table_of k initial_agent)" for k
    unfolding t by (simp add: wf_hash_table_def make_hash_table_def table_items_def)
  show "unique_keys (symbols initial_agent) (table_items (table_of k initial_agent))" for k
    unfolding t by (simp add: unique_keys_def make_hash_table_def table_items_def)
qed (simp_all add: initial_agent_def blank_agent_def free_addrs_def init_memory_pool_def)

lemma init_symbol_tables_blank: "init_symbol_tables blank_agent = Some initial_agent"
  by (simp add: init_symbol_tables_def blank_agent_def reset_id_counters_def make_hash_table_def
      initial_agent_def)

lemma largest_count_initial: "largest_count initial_agent = 0"
  by (simp add: largest_count_def initial_agent_def blank_agent_def make_hash_table_def)

section \<open>The state-stack listing: proofs\<close>

lemma count_depth_chain:
  "lower_chain st gs \<Longrightarrow> count_depth st (hd gs) d = Some (d + int (length gs) - 1)"
proof (induction st gs arbitrary: d rule: lower_chain.induct)
  case (1 st) then show ?case by simp
next
  case (2 st a)
  then show ?case by (subst count_depth.simps) (auto split: option.splits)
next
  case (3 st a b rest)
  then show ?case by (subst count_depth.simps) (auto split: option.splits)
qed

lemma comma_separated_Cons:
  "ns \<noteq> [] \<Longrightarrow> comma_separated (n # ns) = n @ '', '' @ comma_separated ns"
  by (cases ns) simp_all

lemma append_states_chain:
  "lower_chain st gs \<Longrightarrow>
   append_states st (Some (hd gs)) nf str =
     Some ((if nf then str @ '', '' else str) @ comma_separated (goal_names st gs))"
proof (induction st gs arbitrary: nf str rule: lower_chain.induct)
  case (1 st) then show ?case by simp
next
  case (2 st a)
  then show ?case
    by (subst append_states.simps, subst append_states.simps)
       (auto split: option.splits simp: goal_names_def)
next
  case (3 st a b rest)
  from 3(2) obtain g where g: "st a = Some g" "lower_goal g = Some b" "lower_chain st (b # rest)"
    by (auto split: option.splits)
  have "append_states st (Some (hd (a # b # rest))) nf str =
        append_states st (Some b) True ((if nf then str @ '', '' else str) @ to_string g)"
    by (subst append_states.simps) (simp add: g)
  also have "\<dots> = Some ((((if nf then str @ '', '' else str) @ to_string g) @ '', '')
                       @ comma_separated (goal_names st (b # rest)))"
    using 3(1)[OF g(1) g(3), of True] by simp
  finally show ?case by (simp add: goal_names_def g)
qed

lemma lower_chain_all:
  "lower_chain st gs \<Longrightarrow> a \<in> set gs \<Longrightarrow> \<exists>g. st a = Some g"
  by (induction st gs rule: lower_chain.induct) (auto split: option.splits)

lemma lower_chain_second:
  assumes "lower_chain st gs" "2 \<le> length gs"
  shows "\<exists>g g'. st (hd gs) = Some g \<and> lower_goal g = Some (gs ! Suc 0) \<and> st (gs ! Suc 0) = Some g'"
proof -
  from assms(2) obtain a b rest where gs: "gs = a # b # rest"
    by (cases gs; cases "tl gs") auto
  with assms(1) obtain g where "st a = Some g" "lower_goal g = Some b"
    by (auto split: option.splits)
  moreover from lower_chain_all[OF assms(1), where a = b] gs obtain g' where "st b = Some g'"
    by auto
  ultimately show ?thesis by (simp add: gs)
qed

lemma lower_chain_last:
  "lower_chain st gs \<Longrightarrow> \<exists>g. st (last gs) = Some g"
  by (induction st gs rule: lower_chain.induct) (auto split: option.splits)

lemma higher_chain_last:
  "higher_chain st gs \<Longrightarrow> 2 \<le> length gs \<Longrightarrow>
   \<exists>g. st (last gs) = Some g \<and> higher_goal g = Some (gs ! (length gs - 2))"
proof (induction st gs rule: higher_chain.induct)
  case (1 st a b rest)
  show ?case
  proof (cases rest)
    case Nil
    with 1 show ?thesis by (auto split: option.splits)
  next
    case (Cons c cs)
    with 1 show ?thesis by (auto split: option.splits)
  qed
qed simp_all

lemma comma_separated_two: "comma_separated [a, b] = a @ '', '' @ b"
  by simp

lemma listing_long:
  assumes "4 \<le> length ns"
  shows "state_stack_listing ns =
     ns ! 0 @ '', '' @ ns ! 1 @ (if length ns > 4 then '' ... '' else '', '')
       @ ns ! (length ns - 2) @ '', '' @ ns ! (length ns - 1)"
proof (cases "length ns = 4")
  case True
  then obtain a b c d where "ns = [a, b, c, d]"
    by (auto simp: length_Suc_conv numeral_eq_Suc)
  then show ?thesis by (simp add: state_stack_listing_def)
next
  case False
  with assms have len: "4 < length ns" by simp
  have t: "take 2 ns = [ns ! 0, ns ! 1]"
    using len by (cases ns; cases "tl ns") (auto simp: numeral_2_eq_2)
  have "drop (length ns - 2) ns = [ns ! (length ns - 2), ns ! (length ns - 1)]"
  proof -
    have "drop (length ns - 2) ns = ns ! (length ns - 2) # drop (Suc (length ns - 2)) ns"
      using len by (intro Cons_nth_drop_Suc[symmetric]) simp
    moreover have "drop (Suc (length ns - 2)) ns = ns ! (length ns - 1) # drop (Suc (length ns - 1)) ns"
      using len Cons_nth_drop_Suc[of "length ns - 1" ns, symmetric]
      by (simp add: Suc_diff_Suc numeral_2_eq_2)
    ultimately show ?thesis using len by simp
  qed
  with t len show ?thesis by (simp add: state_stack_listing_def)
qed

text \<open>
  Claim C9.  On every well-formed goal stack \<open>get_state_stack_string\<close> returns the
  depth of the stack and appends to its string argument the listing of the stack: all the
  goals from top to bottom, separated by a comma and a blank, when the depth is at most
  three, all four goals likewise when it is four, and the top two goals, \<open>" ... "\<close>,
  and the bottom two goals when it exceeds four.
\<close>

theorem get_state_stack_string_listing:
  assumes "wf_goal_stack ag gs"
  shows "get_state_stack_string ag str =
           Some (str @ state_stack_listing (goal_names (goals ag) gs), int (length gs))"
proof -
  from assms have ne: "gs \<noteq> []" and top: "top_goal ag = Some (hd gs)"
    and bot: "bottom_goal ag = Some (last gs)"
    and lc: "lower_chain (goals ag) gs" and hc: "higher_chain (goals ag) gs"
    by (simp_all add: wf_goal_stack_def)
  have depth: "count_depth (goals ag) (hd gs) 1 = Some (int (length gs))"
    using count_depth_chain[OF lc, of 1] by simp
  show ?thesis
  proof (cases "length gs < 4")
    case True
    then have "state_stack_listing (goal_names (goals ag) gs) = comma_separated (goal_names (goals ag) gs)"
      by (simp add: state_stack_listing_def goal_names_def)
    with True show ?thesis
      using append_states_chain[OF lc, of False str]
      by (simp add: get_state_stack_string_def top depth)
  next
    case False
    then have len: "4 \<le> length gs" by simp
    from lower_chain_second[OF lc] len obtain g g' where
      g: "goals ag (hd gs) = Some g" "lower_goal g = Some (gs ! Suc 0)" "goals ag (gs ! Suc 0) = Some g'"
      by auto
    from higher_chain_last[OF hc] len obtain b where
      b: "goals ag (last gs) = Some b" "higher_goal b = Some (gs ! (length gs - 2))"
      by auto
    from lower_chain_all[OF lc, where a = "gs ! (length gs - 2)"] len obtain h where
      h: "goals ag (gs ! (length gs - 2)) = Some h" by auto
    have names: "goal_names (goals ag) gs ! 0 = to_string g"
      "goal_names (goals ag) gs ! 1 = to_string g'"
      "goal_names (goals ag) gs ! (length gs - 2) = to_string h"
      "goal_names (goals ag) gs ! (length gs - 1) = to_string b"
      using len ne g b h by (simp_all add: goal_names_def hd_conv_nth last_conv_nth)
    have "4 \<le> length (goal_names (goals ag) gs)" using len by (simp add: goal_names_def)
    from listing_long[OF this] have
      "state_stack_listing (goal_names (goals ag) gs) =
         to_string g @ '', '' @ to_string g' @ (if length gs > 4 then '' ... '' else '', '')
           @ to_string h @ '', '' @ to_string b"
      using names by (simp add: goal_names_def)
    with False show ?thesis
      by (simp add: get_state_stack_string_def top bot depth deref_def g b h)
  qed
qed

theorem get_state_stack_string_listing_witness:
  "wf_goal_stack (example_stack 5) [0, 1, 2, 3, 4] \<and>
   get_state_stack_string (example_stack 5) [] = Some (''S1, S3 ... S7, S9'', 5) \<and>
   wf_goal_stack (example_stack 4) [0, 1, 2, 3] \<and>
   get_state_stack_string (example_stack 4) [] = Some (''S1, S3, S5, S7'', 4) \<and>
   wf_goal_stack (example_stack 3) [0, 1, 2] \<and>
   get_state_stack_string (example_stack 3) [] = Some (''S1, S3, S5'', 3)"
proof -
  have names: "std_to_string (Suc 0) = ''1''" "std_to_string 3 = ''3''" "std_to_string 5 = ''5''"
    "std_to_string 7 = ''7''" "std_to_string 9 = ''9''"
    by (simp_all add: std_to_string.simps digit_char_def)
  have w5: "wf_goal_stack (example_stack 5) [0, 1, 2, 3, 4]"
    by (simp add: wf_goal_stack_def example_stack_def example_goal_def)
  have w4: "wf_goal_stack (example_stack 4) [0, 1, 2, 3]"
    by (simp add: wf_goal_stack_def example_stack_def example_goal_def)
  have w3: "wf_goal_stack (example_stack 3) [0, 1, 2]"
    by (simp add: wf_goal_stack_def example_stack_def example_goal_def)
  have "get_state_stack_string (example_stack 5) [] = Some (''S1, S3 ... S7, S9'', 5)"
    using get_state_stack_string_listing [OF w5, of "[]"]
    by (simp add: state_stack_listing_def goal_names_def example_stack_def example_goal_def names)
  moreover have "get_state_stack_string (example_stack 4) [] = Some (''S1, S3, S5, S7'', 4)"
    using get_state_stack_string_listing [OF w4, of "[]"]
    by (simp add: state_stack_listing_def goal_names_def example_stack_def example_goal_def names)
  moreover have "get_state_stack_string (example_stack 3) [] = Some (''S1, S3, S5'', 3)"
    using get_state_stack_string_listing [OF w3, of "[]"]
    by (simp add: state_stack_listing_def goal_names_def example_stack_def example_goal_def names)
  ultimately show ?thesis using w5 w4 w3 by simp
qed

section \<open>The learning gate: proofs\<close>

text \<open>
  Claim C7.  For an instantiation whose match goal is a goal of the stack (and whose
  production has a name to print), \<open>set_learning_for_instantiation\<close> returns, and it
  returns false exactly when learning is off or the match goal level is the top level, or
  the except mode is on and the match goal is in the chunk-free list, or the only mode is
  on and the match goal is not in the chunky list, or the bottom-only mode is on and the
  match goal does not allow bottom-up chunks.  The flag
  \<open>m_learning_on_for_instantiation\<close> is set to the result, and the warning traced is the
  one of the first of the last three conditions that holds, which is the order of the
  checks.  In particular a firing at the top level is never eligible.
\<close>

theorem set_learning_for_instantiation_iff:
  assumes "insts e p = Some inst" and "match_goal inst = Some g"
    and "goal_symbols e g = Some gl" and "prod_name inst = Some rule"
  shows "\<exists>b e'. set_learning_for_instantiation e p = Some (b, e') \<and>
           (b = False \<longleftrightarrow>
              ((\<not> ebc_settings e SETTING_EBC_LEARNING_ON \<or> match_goal_level inst = TOP_GOAL_LEVEL) \<or>
               (ebc_settings e SETTING_EBC_EXCEPT \<and> g \<in> set (chunk_free_problem_spaces e)) \<or>
               (ebc_settings e SETTING_EBC_ONLY \<and> g \<notin> set (chunky_problem_spaces e)) \<or>
               (ebc_settings e SETTING_EBC_BOTTOM_ONLY \<and> \<not> allow_bottom_up_chunks gl))) \<and>
           m_learning_on_for_instantiation e' = b \<and>
           (match_goal_level inst = TOP_GOAL_LEVEL \<longrightarrow> b = False) \<and>
           trace e' = trace e @
             (if \<not> ebc_settings e SETTING_EBC_LEARNING_ON \<or> match_goal_level inst = TOP_GOAL_LEVEL
                 \<or> \<not> trace_chunks_warnings e
              then []
              else if ebc_settings e SETTING_EBC_EXCEPT \<and> g \<in> set (chunk_free_problem_spaces e)
              then [will_not_learn rule (to_string gl) '' was flagged to prevent learning'']
              else if ebc_settings e SETTING_EBC_ONLY \<and> g \<notin> set (chunky_problem_spaces e)
              then [will_not_learn rule (to_string gl) '' was not flagged for learning'']
              else if ebc_settings e SETTING_EBC_BOTTOM_ONLY \<and> \<not> allow_bottom_up_chunks gl
              then [will_not_learn rule (to_string gl) '' is not the bottom state'']
              else [])"
  using assms
  by (simp add: set_learning_for_instantiation_def refuse_def deref_def member_of_list_def)

theorem set_learning_for_instantiation_iff_witness:
  "insts example_chunker 0 \<noteq> None \<and>
   (\<exists>e'. set_learning_for_instantiation example_chunker 0 = Some (True, e')) \<and>
   (\<exists>e'. set_learning_for_instantiation (example_chunker\<lparr>ebc_settings := (\<lambda>x. True)\<rparr>) 0
         = Some (False, e') \<and>
         trace e' = [will_not_learn ''mv'' ''S3'' '' was not flagged for learning''])"
proof -
  let ?inst = "\<lparr>inst_prod = Some \<lparr>original_rule_name = ''mv''\<rparr>,
                prod_name = Some ''mv'', prod_naming_depth = 0,
                match_goal = Some 1, match_goal_level = 2\<rparr>"
  let ?e = "example_chunker\<lparr>ebc_settings := (\<lambda>x. True)\<rparr>"
  have i: "insts example_chunker 0 = Some ?inst" "insts ?e 0 = Some ?inst"
    by (simp_all add: example_chunker_def)
  have m: "match_goal ?inst = Some 1" "prod_name ?inst = Some ''mv''"
    by simp_all
  have g: "goal_symbols example_chunker 1 = Some (example_goal 2 1)"
    "goal_symbols ?e 1 = Some (example_goal 2 1)"
    by (simp_all add: example_chunker_def example_stack_def)
  have n: "to_string (example_goal 2 (Suc 0)) = ''S3''"
    by (simp add: example_goal_def std_to_string.simps digit_char_def)
  have 1: "\<exists>e'. set_learning_for_instantiation example_chunker 0 = Some (True, e')"
    using set_learning_for_instantiation_iff [OF i(1) m(1) g(1) m(2)]
    by (auto simp: example_chunker_def example_settings_def TOP_GOAL_LEVEL_def)
  have 2: "\<exists>e'. set_learning_for_instantiation ?e 0 = Some (False, e') \<and>
             trace e' = [will_not_learn ''mv'' ''S3'' '' was not flagged for learning'']"
    using set_learning_for_instantiation_iff [OF i(2) m(1) g(2) m(2)]
    by (auto simp: example_chunker_def TOP_GOAL_LEVEL_def n)
  from 1 2 i(1) show ?thesis by simp
qed

section \<open>Identifiers: proofs\<close>

lemma live_symbols_simps [simp]:
  "live_symbols (s\<lparr>symbols := m\<rparr>) k = live_symbols s k"
  "live_symbols (s\<lparr>id_counter := c\<rparr>) k = live_symbols s k"
  by (simp_all add: live_symbols_def)

lemma make_new_identifier_spec:
  fixes letter :: char and lvl :: nat and number :: "64 word"
  assumes wf: "wf_agent s" and room: "largest_count s < 2 ^ 32"
  defines "i \<equiv> counter_index (normalize_letter letter)"
  defines "ident \<equiv> \<lparr>name_letter = normalize_letter letter,
            name_number = fst (counted (id_counter s) i number),
            level = lvl, promotion_level = lvl, smem_lti = 0\<rparr>"
  shows "\<exists>a s'. make_new_identifier s letter lvl number = Some (a, s') \<and>
           symbols s a = None \<and>
           symbols s' = (symbols s)(a \<mapsto> \<lparr>reference_count = 1,
                            hash_id = current_symbol_hash_id s + 137, tc_num = 0, un = ID ident\<rparr>) \<and>
           id_counter s' = snd (counted (id_counter s) i number) \<and>
           set (live_symbols s' IDENTIFIER_SYMBOL_TYPE) = insert a (set (live_symbols s IDENTIFIER_SYMBOL_TYPE)) \<and>
           wf_agent s' \<and> largest_count s' \<le> Suc (largest_count s)"
proof -
  let ?c = "snd (counted (id_counter s) i number)"
  let ?s = "s\<lparr>id_counter := ?c\<rparr>"
  have wf': "wf_agent ?s"
    by (rule wf_agent_counters[OF wf]) (simp add: counted_length wf_agentD(6)[OF wf])
  have k: "kind_of (ID ident) = IDENTIFIER_SYMBOL_TYPE" by (simp add: kind_of_def)
  have r: "count (table_of (kind_of (ID ident)) ?s) < 2 ^ 32"
    using count_le_largest[of IDENTIFIER_SYMBOL_TYPE s] room by (simp add: k)
  from install_symbol_spec[OF wf' r, of ] k obtain a pool unused ht where
    al: "symbols ?s a = None"
    and i: "install_symbol (ID ident) ?s =
       Some (a, (set_table IDENTIFIER_SYMBOL_TYPE ht (set_pool IDENTIFIER_SYMBOL_TYPE pool ?s))
                  \<lparr>next_unused := unused, current_symbol_hash_id := current_symbol_hash_id ?s + 137,
                   symbols := (symbols ?s)(a \<mapsto> \<lparr>reference_count = 1, hash_id = current_symbol_hash_id ?s + 137, tc_num = 0, un = ID ident\<rparr>)\<rparr>)"
    and it: "set (table_items ht) = insert a (set (table_items (table_of IDENTIFIER_SYMBOL_TYPE ?s)))"
    and c: "count ht = Suc (count (table_of IDENTIFIER_SYMBOL_TYPE ?s))"
    and w: "wf_agent ((set_table IDENTIFIER_SYMBOL_TYPE ht (set_pool IDENTIFIER_SYMBOL_TYPE pool ?s))
                  \<lparr>next_unused := unused, current_symbol_hash_id := current_symbol_hash_id ?s + 137,
                   symbols := (symbols ?s)(a \<mapsto> \<lparr>reference_count = 1, hash_id = current_symbol_hash_id ?s + 137, tc_num = 0, un = ID ident\<rparr>)\<rparr>)"
    by auto
  let ?s' = "(set_table IDENTIFIER_SYMBOL_TYPE ht (set_pool IDENTIFIER_SYMBOL_TYPE pool ?s))
                  \<lparr>next_unused := unused, current_symbol_hash_id := current_symbol_hash_id ?s + 137,
                   symbols := (symbols ?s)(a \<mapsto> \<lparr>reference_count = 1, hash_id = current_symbol_hash_id ?s + 137, tc_num = 0, un = ID ident\<rparr>)\<rparr>"
  have m: "make_new_identifier s letter lvl number = Some (a, ?s')"
    unfolding make_new_identifier_generic[OF wf_agentD(6)[OF wf]] using i
    by (simp add: ident_def i_def)
  have "count (table_of k ?s') \<le> Suc (largest_count s)" for k
    using count_le_largest[of k s] count_le_largest[of IDENTIFIER_SYMBOL_TYPE s] c by simp
  then have l: "largest_count ?s' \<le> Suc (largest_count s)" by (rule largest_countI)
  show ?thesis
    apply (rule exI[of _ a], rule exI[of _ ?s'])
    using m al it w l by (simp add: live_symbols_def)
qed

lemma normalize_letter_eq: "normalize_letter c = (if isalpha c then toupper c else CHR ''I'')"
  by (simp add: normalize_letter_def toupper_def)

lemma max_succ_word:
  fixes n c :: "64 word"
  assumes "n + 1 \<noteq> 0"
  shows "max c (n + 1) = (if n \<ge> c then n + 1 else c)"
proof -
  from assms have "unat (n + 1) = Suc (unat n)"
    using unatSuc[of n] by (simp add: add.commute)
  then show ?thesis
    by (auto simp: max_def word_le_nat_alt word_unat_eq_iff)
qed

text \<open>
  Claim C5, as amended.  In a well-formed agent with fewer than \<open>2\<^sup>3\<^sup>2\<close> symbols per table
  \<open>make_new_identifier\<close> returns a fresh identifier whose letter is the given letter
  upper-cased if alphabetic and \<open>I\<close> otherwise.  With the number omitted (\<open>NIL\<close>, which
  is zero) its number is the value the counter of that letter had before the call, and
  the counter is incremented by one.  With a number \<open>n\<close> supplied its number is \<open>n\<close>,
  and for \<open>n\<close> below \<open>2\<^sup>6\<^sup>4 - 1\<close> the counter becomes the maximum of the counter and
  \<open>n + 1\<close>.
\<close>

theorem make_new_identifier_numbering:
  assumes "wf_agent s" and "largest_count s < 2 ^ 32"
  shows "\<exists>a s' sy ident.
           make_new_identifier s letter lvl number = Some (a, s') \<and>
           symbols s a = None \<and> symbols s' a = Some sy \<and> un sy = ID ident \<and>
           name_letter ident = (if isalpha letter then toupper letter else CHR ''I'') \<and>
           level ident = lvl \<and>
           (number = 0 \<longrightarrow>
              name_number ident = id_counter s ! counter_index (name_letter ident) \<and>
              id_counter s' = (id_counter s)[counter_index (name_letter ident) :=
                                 id_counter s ! counter_index (name_letter ident) + 1]) \<and>
           (number \<noteq> 0 \<longrightarrow> name_number ident = number) \<and>
           (number \<noteq> 0 \<and> number + 1 \<noteq> 0 \<longrightarrow>
              id_counter s' = (id_counter s)[counter_index (name_letter ident) :=
                                 max (id_counter s ! counter_index (name_letter ident)) (number + 1)]) \<and>
           counter_index (name_letter ident) < length (id_counter s) \<and>
           wf_agent s' \<and> largest_count s' \<le> Suc (largest_count s)"
proof -
  let ?i = "counter_index (normalize_letter letter)"
  let ?ident = "\<lparr>name_letter = normalize_letter letter,
            name_number = fst (counted (id_counter s) ?i number),
            level = lvl, promotion_level = lvl, smem_lti = 0\<rparr>"
  from make_new_identifier_spec[OF assms, of letter lvl number] obtain a s' where
    r: "make_new_identifier s letter lvl number = Some (a, s')" "symbols s a = None"
       "symbols s' = (symbols s)(a \<mapsto> \<lparr>reference_count = 1,
                            hash_id = current_symbol_hash_id s + 137, tc_num = 0, un = ID ?ident\<rparr>)"
       "id_counter s' = snd (counted (id_counter s) ?i number)"
       "wf_agent s'" "largest_count s' \<le> Suc (largest_count s)"
    by blast
  have b: "?i < length (id_counter s)"
    using counter_index_bound[OF normalize_letter_upper, of letter] wf_agentD(6)[OF assms(1)] by simp
  have upd: "number \<noteq> 0 \<Longrightarrow> number + 1 \<noteq> 0 \<Longrightarrow>
     snd (counted (id_counter s) ?i number) = (id_counter s)[?i := max (id_counter s ! ?i) (number + 1)]"
    using b by (simp add: counted_def max_succ_word)
  show ?thesis
    apply (rule exI[of _ a], rule exI[of _ s'])
    apply (rule exI[of _ "\<lparr>reference_count = 1, hash_id = current_symbol_hash_id s + 137, tc_num = 0, un = ID ?ident\<rparr>"])
    apply (rule exI[of _ ?ident])
    using r b upd by (simp add: normalize_letter_eq counted_def)
qed

lemma letter_q: "normalize_letter CHR ''q'' = CHR ''Q''" "counter_index CHR ''Q'' = 16"
  "(if isalpha CHR ''q'' then toupper CHR ''q'' else CHR ''I'') = CHR ''Q''"
  by (simp_all add: normalize_letter_def isalpha_def islower_def isupper_def toupper_def
      counter_index_def char_of_eq_iff)

lemma letter_S: "normalize_letter CHR ''S'' = CHR ''S''" "counter_index CHR ''S'' = 18"
  by (simp_all add: normalize_letter_def isalpha_def islower_def isupper_def toupper_def counter_index_def)

lemma room_initial: "largest_count initial_agent < 2 ^ 32"
  by (simp add: largest_count_initial)

text \<open>
  The scenario of claim C5, from the freshly initialised agent:
  \<open>make_new_identifier('q', 1, 50)\<close> returns \<open>Q50\<close> and leaves the counter of
  \<open>Q\<close> at 51; a call with the number omitted then returns \<open>Q51\<close>.
\<close>

theorem make_new_identifier_numbering_witness:
  "wf_agent initial_agent \<and> largest_count initial_agent < 2 ^ 32 \<and>
   (\<exists>a s' b s''.
      make_new_identifier initial_agent CHR ''q'' 1 50 = Some (a, s') \<and>
      identifier_name s' a = Some (CHR ''Q'', 50) \<and> id_counter s' ! 16 = 51 \<and>
      make_new_identifier s' CHR ''q'' 1 0 = Some (b, s'') \<and>
      identifier_name s'' b = Some (CHR ''Q'', 51) \<and> id_counter s'' ! 16 = 52)"
proof -
  have c0: "id_counter initial_agent = replicate 26 1"
    by (simp add: initial_agent_def)
  from make_new_identifier_numbering [OF wf_agent_initial room_initial, of "CHR ''q''" 1 50]
  obtain a s' sy ident where
    1: "make_new_identifier initial_agent CHR ''q'' 1 50 = Some (a, s')"
       "symbols s' a = Some sy" "un sy = ID ident" "name_letter ident = CHR ''Q''"
       "name_number ident = 50" "id_counter s' = (replicate 26 1)[16 := 51]"
       "wf_agent s'" "largest_count s' \<le> Suc (largest_count initial_agent)"
    by (auto simp: letter_q c0)
  from 1(8) have room': "largest_count s' < 2 ^ 32" by (simp add: largest_count_initial)
  from make_new_identifier_numbering [OF 1(7) room', of "CHR ''q''" 1 0]
  obtain b s'' sy' ident' where
    2: "make_new_identifier s' CHR ''q'' 1 0 = Some (b, s'')"
       "symbols s'' b = Some sy'" "un sy' = ID ident'" "name_letter ident' = CHR ''Q''"
       "name_number ident' = 51" "id_counter s'' = (replicate 26 1)[16 := 52]"
    by (auto simp: letter_q 1(6))
  have "identifier_name s' a = Some (CHR ''Q'', 50)"
    using 1 by (simp add: identifier_name_def)
  moreover have "identifier_name s'' b = Some (CHR ''Q'', 51)"
    using 2 by (simp add: identifier_name_def)
  ultimately show ?thesis
    using wf_agent_initial room_initial 1(1,6) 2(1,6) by auto
qed

text \<open>
  The number \<open>2\<^sup>6\<^sup>4 - 1\<close>: \<open>name_number + 1\<close> wraps to zero, so the counter of
  \<open>S\<close>, which was 1, is left at 0 and not at the maximum of 1 and \<open>n + 1\<close>.
\<close>

theorem make_new_identifier_counter_wraps:
  "make_new_identifier initial_agent CHR ''S'' 1 (- 1) \<noteq> None \<and>
   id_counter initial_agent ! 18 = 1 \<and>
   id_counter (snd (the (make_new_identifier initial_agent CHR ''S'' 1 (- 1)))) ! 18 = 0 \<and>
   max (id_counter initial_agent ! 18) (- 1 + 1) = 1"
proof -
  have c0: "id_counter initial_agent = replicate 26 1"
    by (simp add: initial_agent_def)
  from make_new_identifier_spec [OF wf_agent_initial room_initial, of "CHR ''S''" 1 "- 1"]
  obtain a s' where
    1: "make_new_identifier initial_agent CHR ''S'' 1 (- 1) = Some (a, s')"
       "id_counter s' = snd (counted (id_counter initial_agent) 18 (- 1))"
    by (auto simp: letter_S)
  have "snd (counted (replicate 26 (1 :: 64 word)) 18 (- 1)) ! 18 = 0"
    by (simp add: counted_def)
  with 1 show ?thesis by (simp add: c0)
qed

section \<open>Interned symbols: proofs\<close>

subsection \<open>Interning through the generic operations\<close>

lemma intern_generic: "intern s key = make_generic (key_union key) s"
  by (cases key) (simp_all add: make_variable_generic make_sym_constant_generic
      make_int_constant_generic make_float_constant_generic)

lemma find_key_generic:
  "find_key s key = find_generic (raw_of (key_union key)) (test_of (key_union key)) (symbols s)
     (table_of (kind_of (key_union key)) s)"
  by (cases key) (simp_all add: find_variable_generic find_sym_constant_generic
      find_int_constant_generic find_float_constant_generic kind_of_def)

lemma key_union_kind: "kind_of (key_union key) \<noteq> IDENTIFIER_SYMBOL_TYPE"
  by (cases key) (simp_all add: kind_of_def)

lemma test_of_un: "un sy = un sy' \<Longrightarrow> test_of u sy = test_of u sy'"
  by (cases u) (simp_all add: test_of_def)

lemma find_in_chain_un:
  assumes "\<And>b. b \<in> set chain \<Longrightarrow> map_option un (mem' b) = map_option un (mem b)"
  shows "find_in_chain (test_of u) mem' chain = find_in_chain (test_of u) mem chain"
  using assms
proof (induction chain)
  case Nil
  then show ?case by simp
next
  case (Cons a chain)
  have ih: "find_in_chain (test_of u) mem' chain = find_in_chain (test_of u) mem chain"
    using Cons by simp
  from Cons.prems[of a] have a: "map_option un (mem' a) = map_option un (mem a)" by simp
  show ?case
  proof (cases "mem a")
    case None
    with a show ?thesis by simp
  next
    case (Some sy)
    with a obtain sy' where sy': "mem' a = Some sy'" "un sy' = un sy" by auto
    then have "test_of u sy' = test_of u sy" by (rule_tac test_of_un)
    with Some sy' ih show ?thesis by (simp cong: if_cong)
  qed
qed

lemma find_generic_un:
  assumes "\<And>b. map_option un (mem' b) = map_option un (mem b)"
  shows "find_generic raw (test_of u) mem' ht = find_generic raw (test_of u) mem ht"
  unfolding find_generic_def
  apply (rule Option.bind_cong[OF refl])
  apply (rule Option.bind_cong[OF refl])
  apply (rule find_in_chain_un)
  apply (rule assms)
  done

lemma find_key_header:
  assumes "symbols s a = Some sy" "un sy' = un sy"
  shows "find_key (s\<lparr>symbols := (symbols s)(a \<mapsto> sy')\<rparr>) key = find_key s key"
proof -
  have "find_generic (raw_of (key_union key)) (test_of (key_union key)) ((symbols s)(a \<mapsto> sy'))
          (table_of (kind_of (key_union key)) s) =
        find_generic (raw_of (key_union key)) (test_of (key_union key)) (symbols s)
          (table_of (kind_of (key_union key)) s)"
    by (rule find_generic_un) (use assms in simp)
  then show ?thesis unfolding find_key_generic by simp
qed

lemma live_symbols_set_table [simp]:
  "live_symbols (set_table k ht s) k' = (if k' = k then table_items ht else live_symbols s k')"
  by (simp add: live_symbols_def)

lemma live_symbols_other [simp]:
  "live_symbols (set_pool k p s) k' = live_symbols s k'"
  "live_symbols (s\<lparr>next_unused := n\<rparr>) k' = live_symbols s k'"
  "live_symbols (s\<lparr>current_symbol_hash_id := h\<rparr>) k' = live_symbols s k'"
  by (simp_all add: live_symbols_def)

lemma next_unused_set_table_pool:
  "next_unused (set_table k ht (set_pool k p s)) = next_unused s" by simp

lemma allocate_cases:
  "allocate_with_pool p n = (a, p', n') \<Longrightarrow>
   (free_list p = [] \<and> a = n \<and> p' = p \<and> n' = Suc n) \<or>
   (\<exists>rest. free_list p = a # rest \<and> p' = p\<lparr>free_list := rest\<rparr> \<and> n' = n)"
  by (auto simp: allocate_with_pool_def split: list.splits)

lemma intern_new:
  assumes wf: "wf_agent s" and room: "largest_count s < 2 ^ 32"
    and absent: "find_key s key = Some None"
  shows "\<exists>a s1 pool unused ht.
     intern s key = Some (a, s1) \<and> symbols s a = None \<and>
     allocate_with_pool (pool_of (kind_of (key_union key)) s) (next_unused s) = (a, pool, unused) \<and>
     s1 = (set_table (kind_of (key_union key)) ht (set_pool (kind_of (key_union key)) pool s))
            \<lparr>next_unused := unused, current_symbol_hash_id := current_symbol_hash_id s + 137,
             symbols := (symbols s)(a \<mapsto> \<lparr>reference_count = 1,
                 hash_id = current_symbol_hash_id s + 137, tc_num = 0, un = key_union key\<rparr>)\<rparr> \<and>
     set (table_items ht) = insert a (set (live_symbols s (kind_of (key_union key)))) \<and>
     count ht = Suc (count (table_of (kind_of (key_union key)) s)) \<and>
     wf_agent s1 \<and> largest_count s1 \<le> Suc (largest_count s)"
proof -
  let ?u = "key_union key"
  let ?k = "kind_of ?u"
  from absent have f: "find_generic (raw_of ?u) (test_of ?u) (symbols s) (table_of ?k s) = Some None"
    by (simp add: find_key_generic)
  have r: "count (table_of ?k s) < 2 ^ 32"
    using count_le_largest[of ?k s] room by simp
  from install_symbol_spec[OF wf r find_none_fresh[OF wf f]] obtain a pool unused ht where
    i: "allocate_with_pool (pool_of ?k s) (next_unused s) = (a, pool, unused)"
       "symbols s a = None"
       "install_symbol ?u s =
       Some (a, (set_table ?k ht (set_pool ?k pool s))
                  \<lparr>next_unused := unused, current_symbol_hash_id := current_symbol_hash_id s + 137,
                   symbols := (symbols s)(a \<mapsto> \<lparr>reference_count = 1, hash_id = current_symbol_hash_id s + 137, tc_num = 0, un = ?u\<rparr>)\<rparr>)"
       "set (table_items ht) = insert a (set (table_items (table_of ?k s)))"
       "count ht = Suc (count (table_of ?k s))"
       "wf_agent ((set_table ?k ht (set_pool ?k pool s))
                  \<lparr>next_unused := unused, current_symbol_hash_id := current_symbol_hash_id s + 137,
                   symbols := (symbols s)(a \<mapsto> \<lparr>reference_count = 1, hash_id = current_symbol_hash_id s + 137, tc_num = 0, un = ?u\<rparr>)\<rparr>)"
    by blast
  let ?s1 = "(set_table ?k ht (set_pool ?k pool s))
                  \<lparr>next_unused := unused, current_symbol_hash_id := current_symbol_hash_id s + 137,
                   symbols := (symbols s)(a \<mapsto> \<lparr>reference_count = 1, hash_id = current_symbol_hash_id s + 137, tc_num = 0, un = ?u\<rparr>)\<rparr>"
  have "count (table_of k ?s1) \<le> Suc (largest_count s)" for k
    using count_le_largest[of k s] count_le_largest[of ?k s] i(5) by simp
  then have l: "largest_count ?s1 \<le> Suc (largest_count s)" by (rule largest_countI)
  have m: "intern s key = Some (a, ?s1)"
    using i(3) make_generic_new[OF f] by (simp add: intern_generic)
  show ?thesis
    apply (rule exI[of _ a], rule exI[of _ ?s1], rule exI[of _ pool], rule exI[of _ unused], rule exI[of _ ht])
    using m i l by (simp add: live_symbols_def)
qed

lemma intern_found:
  assumes wf: "wf_agent s" and f: "find_key s key = Some (Some a)"
  shows "\<exists>sy. symbols s a = Some sy \<and> a \<in> set (live_symbols s (kind_of (key_union key))) \<and>
           same_key (key_union key) (un sy) \<and>
           intern s key =
             Some (a, s\<lparr>symbols := (symbols s)(a \<mapsto> sy\<lparr>reference_count := reference_count sy + 1\<rparr>)\<rparr>)"
  using make_generic_found[OF wf, of "key_union key" a] f
  by (simp add: find_key_generic intern_generic live_symbols_def)

lemma intern_existing:
  assumes wf: "wf_agent s"
    and a: "a \<in> set (live_symbols s (kind_of (key_union key)))" "symbols s a = Some sy"
    and same: "same_key (key_union key) (un sy)"
  shows "find_key s key = Some (Some a)"
    and "intern s key =
           Some (a, s\<lparr>symbols := (symbols s)(a \<mapsto> sy\<lparr>reference_count := reference_count sy + 1\<rparr>)\<rparr>)"
  using make_generic_existing[OF wf key_union_kind, of a key sy] a same
  by (simp_all add: find_key_generic intern_generic live_symbols_def)

lemma find_key_cases:
  assumes "wf_agent s"
  obtains (absent) "find_key s key = Some None" | (present) a where "find_key s key = Some (Some a)"
  unfolding find_key_generic by (rule find_generic_cases[OF assms])

lemma release_not_last:
  assumes "symbols s a = Some sy" "reference_count sy - 1 \<noteq> 0"
  shows "symbol_remove_ref s a =
           Some (s\<lparr>symbols := (symbols s)(a \<mapsto> sy\<lparr>reference_count := reference_count sy - 1\<rparr>)\<rparr>)"
  using assms by (simp add: symbol_remove_ref_def Let_def)

lemma release_last:
  assumes wf: "wf_agent s" and a: "a \<in> set (live_symbols s k)" "symbols s a = Some sy"
    and one: "reference_count sy = 1"
  shows "\<exists>ht. symbol_remove_ref s a =
             Some ((set_table k ht (set_pool k (free_with_pool (pool_of k s) a) s))
                     \<lparr>symbols := (symbols s)(a := None)\<rparr>) \<and>
           set (table_items ht) = set (live_symbols s k) - {a} \<and>
           count ht = count (table_of k s) - 1 \<and>
           wf_agent ((set_table k ht (set_pool k (free_with_pool (pool_of k s) a) s))
                     \<lparr>symbols := (symbols s)(a := None)\<rparr>)"
proof -
  let ?sy = "sy\<lparr>reference_count := reference_count sy - 1\<rparr>"
  let ?s1 = "s\<lparr>symbols := (symbols s)(a \<mapsto> ?sy)\<rparr>"
  have wf1: "wf_agent ?s1" by (rule wf_agent_header[OF wf a(2)]) simp
  have a1: "a \<in> set (table_items (table_of k ?s1))" using a(1) by (simp add: live_symbols_def)
  have "a \<in> set (table_items (table_of k s))" using a(1) by (simp add: live_symbols_def)
  from wf_agent_item[OF wf this] a(2) have k: "kind_of (un sy) = k" by simp
  from deallocate_generic_spec[OF wf1 a1] obtain ht where
    d: "deallocate_generic k ?s1 a =
             Some ((set_table k ht (set_pool k (free_with_pool (pool_of k ?s1) a) ?s1))
                     \<lparr>symbols := (symbols ?s1)(a := None)\<rparr>)"
       "set (table_items ht) = set (table_items (table_of k ?s1)) - {a}"
       "count ht = count (table_of k ?s1) - 1"
       "wf_agent ((set_table k ht (set_pool k (free_with_pool (pool_of k ?s1) a) ?s1))
                     \<lparr>symbols := (symbols ?s1)(a := None)\<rparr>)"
    by blast
  have eq: "(set_table k ht (set_pool k (free_with_pool (pool_of k ?s1) a) ?s1))
                     \<lparr>symbols := (symbols ?s1)(a := None)\<rparr> =
            (set_table k ht (set_pool k (free_with_pool (pool_of k s) a) s))
                     \<lparr>symbols := (symbols s)(a := None)\<rparr>"
    by (cases k) (simp_all add: set_table_def set_pool_def pool_of_def)
  have "symbol_remove_ref s a = deallocate_symbol ?s1 a"
    using a(2) one by (simp add: symbol_remove_ref_def Let_def)
  also have "\<dots> = deallocate_generic k ?s1 a"
    using k by (simp add: deallocate_symbol_generic symbol_type_kind)
  finally have "symbol_remove_ref s a = deallocate_generic k ?s1 a" .
  with d show ?thesis unfolding eq
    by (intro exI[of _ ht]) (simp add: live_symbols_def)
qed

lemma find_key_SomeD:
  assumes "wf_agent s" "find_key s key = Some (Some b)"
  shows "b \<in> set (live_symbols s (kind_of (key_union key)))"
    and "\<exists>sb. symbols s b = Some sb \<and> same_key (key_union key) (un sb)"
  using intern_found[OF assms] by auto

lemma find_key_NoneD:
  assumes "wf_agent s" "find_key s key = Some None"
    and "b \<in> set (live_symbols s (kind_of (key_union key)))" "symbols s b = Some sb"
  shows "\<not> same_key (key_union key) (un sb)"
  using find_none_fresh[OF assms(1), of "key_union key"] assms(2-4)
  by (simp add: find_key_generic live_symbols_def)

lemma refcount_upd [simp]:
  "refcount (s\<lparr>symbols := (symbols s)(a \<mapsto> sy)\<rparr>) a = reference_count sy"
  by (simp add: refcount_def)

lemma intern_twice_release_twice:
  assumes wf: "wf_agent s" and room: "largest_count s < 2 ^ 32"
    and absent: "find_key s key = Some None" and refl: "same_key (key_union key) (key_union key)"
  shows "\<exists>a s1 s2 s3 s4.
           intern s key = Some (a, s1) \<and> refcount s1 a = 1 \<and> find_key s1 key = Some (Some a) \<and>
           intern s1 key = Some (a, s2) \<and> refcount s2 a = 2 \<and>
           symbol_remove_ref s2 a = Some s3 \<and> refcount s3 a = 1 \<and>
           find_key s3 key = Some (Some a) \<and>
           symbol_remove_ref s3 a = Some s4 \<and> find_key s4 key = Some None \<and> symbols s4 a = None"
proof -
  let ?u = "key_union key"
  let ?k = "kind_of ?u"
  let ?n = "\<lambda>c. \<lparr>reference_count = c, hash_id = current_symbol_hash_id s + 137, tc_num = 0, un = ?u\<rparr>"
  from intern_new[OF wf room absent] obtain a s1 ht where
    1: "intern s key = Some (a, s1)" "symbols s a = None"
       "symbols s1 = (symbols s)(a \<mapsto> ?n 1)"
       "set (live_symbols s1 ?k) = insert a (set (live_symbols s ?k))"
       "wf_agent s1"
    by (auto simp: live_symbols_def)
  have m1: "symbols s1 a = Some (?n 1)" using 1(3) by simp
  have a1: "a \<in> set (live_symbols s1 ?k)" using 1(4) by simp
  have same1: "same_key ?u (un (?n 1))" using refl by simp
  from intern_existing[OF 1(5) a1 m1 same1] have
    f1: "find_key s1 key = Some (Some a)" and
    2: "intern s1 key = Some (a, s1\<lparr>symbols := (symbols s1)(a \<mapsto> (?n 1)\<lparr>reference_count := reference_count (?n 1) + 1\<rparr>)\<rparr>)"
    by simp_all
  let ?s2 = "s1\<lparr>symbols := (symbols s1)(a \<mapsto> ?n 2)\<rparr>"
  have i2: "intern s1 key = Some (a, ?s2)" using 2 by simp
  have wf2: "wf_agent ?s2" by (rule wf_agent_header[OF 1(5) m1]) simp
  have m2: "symbols ?s2 a = Some (?n 2)" by simp
  have 3: "symbol_remove_ref ?s2 a = Some (?s2\<lparr>symbols := (symbols ?s2)(a \<mapsto> (?n 2)\<lparr>reference_count := reference_count (?n 2) - 1\<rparr>)\<rparr>)"
    by (rule release_not_last[OF m2]) simp
  let ?s3 = "s1\<lparr>symbols := (symbols s1)(a \<mapsto> ?n 1)\<rparr>"
  have i3: "symbol_remove_ref ?s2 a = Some ?s3" using 3 by simp
  have wf3: "wf_agent ?s3" by (rule wf_agent_header[OF 1(5) m1]) simp
  have f3: "find_key ?s3 key = Some (Some a)"
    using find_key_header[OF m1, of "?n 1" key] f1 by simp
  have m3: "symbols ?s3 a = Some (?n 1)" by simp
  have a3: "a \<in> set (live_symbols ?s3 ?k)" using a1 by simp
  from release_last[OF wf3 a3 m3] obtain ht4 where
    4: "symbol_remove_ref ?s3 a =
             Some ((set_table ?k ht4 (set_pool ?k (free_with_pool (pool_of ?k ?s3) a) ?s3))
                     \<lparr>symbols := (symbols ?s3)(a := None)\<rparr>)"
       "set (table_items ht4) = set (live_symbols ?s3 ?k) - {a}"
       "wf_agent ((set_table ?k ht4 (set_pool ?k (free_with_pool (pool_of ?k ?s3) a) ?s3))
                     \<lparr>symbols := (symbols ?s3)(a := None)\<rparr>)"
    by auto
  let ?s4 = "(set_table ?k ht4 (set_pool ?k (free_with_pool (pool_of ?k ?s3) a) ?s3))
                     \<lparr>symbols := (symbols ?s3)(a := None)\<rparr>"
  have mem4: "symbols ?s4 = symbols s" using 1(2,3) by auto
  have nota: "a \<notin> set (live_symbols s ?k)"
    using not_item_if_None[OF wf 1(2), of ?k] by (simp add: live_symbols_def)
  have live4: "set (live_symbols ?s4 ?k) = set (live_symbols s ?k)"
    using 4(2) 1(4) nota by simp
  have f4: "find_key ?s4 key = Some None"
  proof -
    consider (none) "find_key ?s4 key = Some None" | (found) b where "find_key ?s4 key = Some (Some b)"
      by (rule find_key_cases[OF 4(3), of key])
    then show ?thesis
    proof cases
    case none
    then show ?thesis .
  next
    case (found b)
    from find_key_SomeD[OF 4(3) found] obtain sb where
      "b \<in> set (live_symbols ?s4 ?k)" "symbols ?s4 b = Some sb" "same_key ?u (un sb)" by blast
    with live4 mem4 find_key_NoneD[OF wf absent, of b sb] show ?thesis by simp
  qed
  qed
  show ?thesis
    apply (rule exI[of _ a], rule exI[of _ s1], rule exI[of _ ?s2], rule exI[of _ ?s3], rule exI[of _ ?s4])
    using 1(1) m1 f1 i2 i3 f3 4(1) f4 mem4 1(2)
    by (simp add: refcount_def)
qed

lemma same_key_refl_names [simp]:
  "same_key (key_union (Variable_name n)) (key_union (Variable_name n))"
  "same_key (key_union (Sym_constant_name n)) (key_union (Sym_constant_name n))"
  "same_key (key_union (Int_value v)) (key_union (Int_value v))"
  by (simp_all add: same_key_def)

lemma intern_release_fresh:
  assumes wf: "wf_agent s" and room: "largest_count s < 2 ^ 32"
    and absent: "find_key s key = Some None"
  shows "\<exists>a s1 s2.
           intern s key = Some (a, s1) \<and> symbol_remove_ref s1 a = Some s2 \<and>
           symbols s2 = symbols s \<and>
           (\<forall>k. set (live_symbols s2 k) = set (live_symbols s k) \<and>
                count (table_of k s2) = count (table_of k s)) \<and>
           id_counter s2 = id_counter s \<and>
           current_symbol_hash_id s2 = current_symbol_hash_id s + 137 \<and>
           (\<forall>k. pool_of k s2 =
                  (if k = kind_of (key_union key) \<and> free_list (pool_of k s) = []
                   then \<lparr>free_list = [next_unused s]\<rparr> else pool_of k s)) \<and>
           next_unused s2 =
             (if free_list (pool_of (kind_of (key_union key)) s) = []
              then Suc (next_unused s) else next_unused s)"
proof -
  let ?u = "key_union key"
  let ?k = "kind_of ?u"
  let ?n = "\<lparr>reference_count = 1, hash_id = current_symbol_hash_id s + 137, tc_num = 0, un = ?u\<rparr>"
  from intern_new[OF wf room absent] obtain a s1 pool unused ht where
    1: "intern s key = Some (a, s1)" "symbols s a = None"
       "allocate_with_pool (pool_of ?k s) (next_unused s) = (a, pool, unused)"
       "s1 = (set_table ?k ht (set_pool ?k pool s))
            \<lparr>next_unused := unused, current_symbol_hash_id := current_symbol_hash_id s + 137,
             symbols := (symbols s)(a \<mapsto> ?n)\<rparr>"
       "set (table_items ht) = insert a (set (live_symbols s ?k))"
       "count ht = Suc (count (table_of ?k s))"
       "wf_agent s1"
    by blast
  have m1: "symbols s1 a = Some ?n" using 1(4) by simp
  have a1: "a \<in> set (live_symbols s1 ?k)" using 1(4,5) by simp
  from release_last[OF 1(7) a1 m1] obtain ht2 where
    2: "symbol_remove_ref s1 a =
             Some ((set_table ?k ht2 (set_pool ?k (free_with_pool (pool_of ?k s1) a) s1))
                     \<lparr>symbols := (symbols s1)(a := None)\<rparr>)"
       "set (table_items ht2) = set (live_symbols s1 ?k) - {a}"
       "count ht2 = count (table_of ?k s1) - 1"
    by auto
  let ?s2 = "(set_table ?k ht2 (set_pool ?k (free_with_pool (pool_of ?k s1) a) s1))
                     \<lparr>symbols := (symbols s1)(a := None)\<rparr>"
  have nota: "a \<notin> set (live_symbols s ?k)"
    using not_item_if_None[OF wf 1(2), of ?k] by (simp add: live_symbols_def)
  have mem: "symbols ?s2 = symbols s" using 1(2,4) by auto
  have live: "set (live_symbols ?s2 k) = set (live_symbols s k)" for k
    using 2(2) 1(4,5) nota by simp
  have cnt: "count (table_of k ?s2) = count (table_of k s)" for k
    using 2(3) 1(4,6) by simp
  have idc: "id_counter ?s2 = id_counter s" using 1(4) by simp
  have hid: "current_symbol_hash_id ?s2 = current_symbol_hash_id s + 137" using 1(4) by simp
  have pool_k: "pool_of ?k ?s2 = free_with_pool pool a" using 1(4) by simp
  have pool_o: "k \<noteq> ?k \<Longrightarrow> pool_of k ?s2 = pool_of k s" for k using 1(4) by simp
  have nu: "next_unused ?s2 = unused" using 1(4) by simp
  from allocate_cases[OF 1(3)]
  have pools: "pool_of k ?s2 =
                  (if k = ?k \<and> free_list (pool_of k s) = []
                   then \<lparr>free_list = [next_unused s]\<rparr> else pool_of k s)" for k
    using pool_k pool_o[of k] by (cases "k = ?k") (auto simp: free_with_pool_def)
  from allocate_cases[OF 1(3)]
  have nus: "next_unused ?s2 = (if free_list (pool_of ?k s) = [] then Suc (next_unused s) else next_unused s)"
    using nu by auto
  show ?thesis
    apply (rule exI[of _ a], rule exI[of _ s1], rule exI[of _ ?s2])
    using 1(1) 2(1) mem live cnt idc hid pools nus by blast
qed

lemma intern_release_found:
  assumes wf: "wf_agent s" and found: "find_key s key = Some (Some a)"
    and held: "refcount s a \<noteq> 0"
  shows "\<exists>s1. intern s key = Some (a, s1) \<and> refcount s1 a = refcount s a + 1 \<and>
              symbol_remove_ref s1 a = Some s"
proof -
  from intern_found[OF wf found] obtain sy where
    1: "symbols s a = Some sy"
       "intern s key = Some (a, s\<lparr>symbols := (symbols s)(a \<mapsto> sy\<lparr>reference_count := reference_count sy + 1\<rparr>)\<rparr>)"
    by auto
  let ?sy = "sy\<lparr>reference_count := reference_count sy + 1\<rparr>"
  let ?s1 = "s\<lparr>symbols := (symbols s)(a \<mapsto> ?sy)\<rparr>"
  have nz: "reference_count ?sy - 1 \<noteq> 0" using held 1(1) by (simp add: refcount_def)
  have m: "symbols ?s1 a = Some ?sy" by simp
  have same: "(symbols s)(a \<mapsto> sy) = symbols s" using 1(1) by (rule fun_upd_idem)
  have "symbol_remove_ref ?s1 a = Some s"
    using release_not_last[OF m nz] same by simp
  with 1 show ?thesis by (intro exI[of _ ?s1]) (simp add: refcount_def)
qed

lemma live_symbols_initial [simp]: "live_symbols initial_agent k = []"
  by (cases k)
     (simp_all add: live_symbols_def table_of_def initial_agent_def blank_agent_def
        make_hash_table_def table_items_def)

lemma find_key_initial: "find_key initial_agent key = Some None"
proof -
  consider (none) "find_key initial_agent key = Some None"
    | (found) b where "find_key initial_agent key = Some (Some b)"
    by (rule find_key_cases[OF wf_agent_initial, of key])
  then show ?thesis
  proof cases
    case none
    then show ?thesis .
  next
    case (found b)
    from find_key_SomeD(1)[OF wf_agent_initial found] show ?thesis by simp
  qed
qed

lemma initial_fields [simp]:
  "free_list (pool_of k initial_agent) = []" "next_unused initial_agent = 0"
  "current_symbol_hash_id initial_agent = 0" "symbols initial_agent a = None"
  by (cases k; simp add: pool_of_def initial_agent_def blank_agent_def init_memory_pool_def)+

lemma apply_make_sym_constant:
  assumes "wf_agent s" "largest_count s < 2 ^ 32"
  shows "\<exists>s'. apply_op s (Make_sym_constant name) = Some s' \<and> wf_agent s' \<and>
           largest_count s' \<le> Suc (largest_count s)"
  using make_generic_wf[OF assms, of "SC \<lparr>sc_name = name\<rparr>"]
  by (auto simp: make_sym_constant_generic kind_of_def)

subsection \<open>One live symbol for a key\<close>

text \<open>
  Two calls of \<open>make_new_identifier\<close> with the letter \<open>S\<close> and the number 5 leave
  two live identifiers \<open>S5\<close> in the identifier table.
\<close>

theorem twice_S5_duplicates:
  "run_ops initial_agent twice_S5 \<noteq> None \<and>
   \<not> unique_keys (symbols (the (run_ops initial_agent twice_S5)))
        (live_symbols (the (run_ops initial_agent twice_S5)) IDENTIFIER_SYMBOL_TYPE)"
proof -
  let ?ident = "\<lparr>name_letter = CHR ''S'', name_number = 5 :: 64 word, level = 1 :: nat,
                  promotion_level = 1 :: nat, smem_lti = 0 :: 64 word\<rparr>"
  have c0: "id_counter initial_agent = replicate 26 1"
    by (simp add: initial_agent_def)
  from make_new_identifier_spec [OF wf_agent_initial room_initial, of "CHR ''S''" 1 5]
  obtain a s1 where
    1: "make_new_identifier initial_agent CHR ''S'' 1 5 = Some (a, s1)"
       "symbols s1 = (symbols initial_agent)(a \<mapsto> \<lparr>reference_count = 1,
            hash_id = current_symbol_hash_id initial_agent + 137, tc_num = 0, un = ID ?ident\<rparr>)"
       "set (live_symbols s1 IDENTIFIER_SYMBOL_TYPE) = insert a (set (live_symbols initial_agent IDENTIFIER_SYMBOL_TYPE))"
       "id_counter s1 = (replicate 26 1)[18 := 6]"
       "wf_agent s1" "largest_count s1 \<le> Suc (largest_count initial_agent)"
    by (auto simp: letter_S c0 counted_def)
  from 1(6) have room1: "largest_count s1 < 2 ^ 32" by (simp add: largest_count_initial)
  from make_new_identifier_spec [OF 1(5) room1, of "CHR ''S''" 1 5]
  obtain b s2 where
    2: "make_new_identifier s1 CHR ''S'' 1 5 = Some (b, s2)" "symbols s1 b = None"
       "symbols s2 = (symbols s1)(b \<mapsto> \<lparr>reference_count = 1,
            hash_id = current_symbol_hash_id s1 + 137, tc_num = 0, un = ID ?ident\<rparr>)"
       "set (live_symbols s2 IDENTIFIER_SYMBOL_TYPE) = insert b (set (live_symbols s1 IDENTIFIER_SYMBOL_TYPE))"
    by (auto simp: letter_S 1(4) counted_def)
  have run: "run_ops initial_agent twice_S5 = Some s2"
    using 1(1) 2(1) by (simp add: twice_S5_def)
  have ab: "a \<noteq> b" using 1(2) 2(2) by auto
  have "\<not> unique_keys (symbols s2) (live_symbols s2 IDENTIFIER_SYMBOL_TYPE)"
  proof
    assume u: "unique_keys (symbols s2) (live_symbols s2 IDENTIFIER_SYMBOL_TYPE)"
    have "a \<in> set (live_symbols s2 IDENTIFIER_SYMBOL_TYPE)" "b \<in> set (live_symbols s2 IDENTIFIER_SYMBOL_TYPE)"
      using 1(3) 2(4) by simp_all
    from unique_keysD[OF u this ab, of "\<lparr>reference_count = 1,
            hash_id = current_symbol_hash_id initial_agent + 137, tc_num = 0, un = ID ?ident\<rparr>"
           "\<lparr>reference_count = 1,
            hash_id = current_symbol_hash_id s1 + 137, tc_num = 0, un = ID ?ident\<rparr>"]
    show False using ab 1(2) 2(3) by (simp add: same_key_def)
  qed
  with run show ?thesis by simp
qed

text \<open>
  Claim C1, as amended.  After any sequence of interner operations that runs from a
  well-formed agent, however long, with every table below \<open>2\<^sup>3\<^sup>2\<close> entries whenever
  one of its operations starts, the tables of variables, symbolic constants, integer
  constants and float constants hold at most one live symbol for a key: two live symbols
  of such a table whose keys the lookup takes for the same (the same name, the same
  integer, floats equal under \<open>==\<close>) are the same symbol.  Identifiers are left out:
  they are not interned.
\<close>

theorem interned_keys_stay_unique:
  assumes "wf_agent s" and "run_ops s ops = Some s'"
    and "\<forall>i < length ops. \<forall>t. run_ops s (take i ops) = Some t \<longrightarrow> largest_count t < 2 ^ 32"
    and "k \<noteq> IDENTIFIER_SYMBOL_TYPE"
    and "a \<in> set (live_symbols s' k)" and "b \<in> set (live_symbols s' k)"
    and "symbols s' a = Some x" and "symbols s' b = Some y" and "same_key (un x) (un y)"
  shows "a = b"
proof (rule ccontr)
  assume "a \<noteq> b"
  from run_ops_wf_bounded[OF assms(1,3,2)] have "wf_agent s'" .
  from unique_keysD[OF wf_agentD(2)[OF this assms(4)] _ _ \<open>a \<noteq> b\<close> assms(7,8)] assms(5,6,9)
  show False by (simp add: live_symbols_def)
qed

text \<open>
  After interning \<open>state\<close> twice in the freshly initialised agent, exactly one live
  symbolic constant has that name.
\<close>

theorem interned_keys_stay_unique_witness:
  "\<exists>s' a x.
     run_ops initial_agent [Make_sym_constant ''state'', Make_sym_constant ''state''] = Some s' \<and>
     symbols s' a = Some x \<and> un x = SC \<lparr>sc_name = ''state''\<rparr> \<and>
     {b \<in> set (live_symbols s' SYM_CONSTANT_SYMBOL_TYPE).
        \<exists>y. symbols s' b = Some y \<and> same_key (un x) (un y)} = {a}"
proof -
  let ?key = "Sym_constant_name ''state''"
  let ?ops = "[Make_sym_constant ''state'', Make_sym_constant ''state'']"
  let ?k = SYM_CONSTANT_SYMBOL_TYPE
  from intern_twice_release_twice[OF wf_agent_initial room_initial find_key_initial[of ?key]
      same_key_refl_names(2)]
  obtain a s1 s2 where
    1: "intern initial_agent ?key = Some (a, s1)" "intern s1 ?key = Some (a, s2)"
       "refcount s2 a = 2"
    by blast
  have run: "run_ops initial_agent ?ops = Some s2" using 1(1,2) by simp
  from intern_new[OF wf_agent_initial room_initial find_key_initial[of ?key]] 1(1)
  obtain sy where
    new: "a \<in> set (live_symbols s1 ?k)" "symbols s1 a = Some sy"
         "un sy = SC \<lparr>sc_name = ''state''\<rparr>" "wf_agent s1"
         "largest_count s1 \<le> Suc (largest_count initial_agent)"
    by (auto simp: kind_of_def)
  have room1: "largest_count s1 < 2 ^ 32" using new(5) by (simp add: largest_count_initial)
  have bound: "\<forall>i < length ?ops. \<forall>t. run_ops initial_agent (take i ?ops) = Some t \<longrightarrow>
                 largest_count t < 2 ^ 32"
  proof (intro allI impI)
    fix i t
    assume i: "i < length ?ops" and t: "run_ops initial_agent (take i ?ops) = Some t"
    from i have "i = 0 \<or> i = 1" by auto
    then show "largest_count t < 2 ^ 32"
    proof
      assume "i = 0"
      with t show ?thesis by (simp add: largest_count_initial)
    next
      assume "i = 1"
      with t 1(1) room1 show ?thesis by simp
    qed
  qed
  have same: "same_key (key_union ?key) (un sy)" using new(3) by (simp add: same_key_def)
  from intern_existing(2)[OF new(4), of a ?key sy] new(1,2) same 1(2)
  have s2: "s2 = s1\<lparr>symbols := (symbols s1)(a \<mapsto> sy\<lparr>reference_count := reference_count sy + 1\<rparr>)\<rparr>"
    by (simp add: kind_of_def)
  let ?x = "sy\<lparr>reference_count := reference_count sy + 1\<rparr>"
  have x: "symbols s2 a = Some ?x" "un ?x = SC \<lparr>sc_name = ''state''\<rparr>"
    using s2 new(3) by simp_all
  have live: "a \<in> set (live_symbols s2 ?k)" using s2 new(1) by (simp add: live_symbols_def)
  have refl: "same_key (un ?x) (un ?x)" using x(2) by (simp add: same_key_def)
  have "{b \<in> set (live_symbols s2 ?k). \<exists>y. symbols s2 b = Some y \<and> same_key (un ?x) (un y)} = {a}"
  proof (intro equalityI subsetI)
    fix b
    assume "b \<in> {b \<in> set (live_symbols s2 ?k). \<exists>y. symbols s2 b = Some y \<and> same_key (un ?x) (un y)}"
    then obtain y where b: "b \<in> set (live_symbols s2 ?k)" "symbols s2 b = Some y"
      "same_key (un ?x) (un y)" by blast
    have "a = b"
      by (rule interned_keys_stay_unique[OF wf_agent_initial run bound _ live b(1) x(1) b(2,3)]) simp
    then show "b \<in> {a}" by simp
  next
    fix b
    assume "b \<in> {a}"
    then show "b \<in> {b \<in> set (live_symbols s2 ?k). \<exists>y. symbols s2 b = Some y \<and> same_key (un ?x) (un y)}"
      using live x(1) refl by simp
  qed
  with run x show ?thesis by blast
qed

subsection \<open>Interning is idempotent\<close>

lemma same_key_stored:
  assumes "stored_key u = Some key" "\<not> nan_key key"
  shows "same_key (key_union key) u" "kind_of u = kind_of (key_union key)"
  using assms
  by (cases u; auto simp: stored_key_def nan_key_def same_key_def double_eq_def kind_of_def)+

lemma quiet_nan_is_nan: "double_is_nan quiet_nan"
proof -
  have "drop_bit 52 quiet_nan AND mask 11 = (mask 11 :: 64 word)"
    by (simp add: quiet_nan_def mask_eq_exp_minus_1 drop_bit_eq_div)
  moreover have "quiet_nan AND mask 52 \<noteq> 0"
    by (simp add: quiet_nan_def mask_eq_exp_minus_1)
  ultimately show ?thesis by (simp add: double_is_nan_def)
qed

lemma nan_never_found:
  assumes wf: "wf_agent s" and nan: "double_is_nan v"
  shows "find_key s (Float_value v) = Some None"
proof -
  consider (none) "find_key s (Float_value v) = Some None"
    | (found) b where "find_key s (Float_value v) = Some (Some b)"
    by (rule find_key_cases[OF wf, of "Float_value v"])
  then show ?thesis
  proof cases
    case none
    then show ?thesis .
  next
    case (found b)
    from find_key_SomeD(2)[OF wf found] obtain sb where
      "symbols s b = Some sb" "same_key (key_union (Float_value v)) (un sb)" by blast
    with nan show ?thesis
      by (cases "un sb") (simp_all add: same_key_def double_eq_def)
  qed
qed

text \<open>
  A quiet NaN made into a float constant twice, in the freshly initialised agent: the
  second call does not find the first symbol, whose stored value has the very same bits,
  and creates a second one; both are live, each with a reference count of 1.
\<close>

theorem nan_interned_twice:
  "\<exists>a b s1 s2.
     make_float_constant initial_agent quiet_nan = Some (a, s1) \<and>
     a \<in> set (live_symbols s1 FLOAT_CONSTANT_SYMBOL_TYPE) \<and>
     map_option un (symbols s1 a) = Some (FC quiet_nan) \<and> refcount s1 a = 1 \<and>
     make_float_constant s1 quiet_nan = Some (b, s2) \<and> b \<noteq> a \<and>
     a \<in> set (live_symbols s2 FLOAT_CONSTANT_SYMBOL_TYPE) \<and>
     b \<in> set (live_symbols s2 FLOAT_CONSTANT_SYMBOL_TYPE) \<and>
     map_option un (symbols s2 a) = Some (FC quiet_nan) \<and>
     map_option un (symbols s2 b) = Some (FC quiet_nan) \<and>
     refcount s2 a = 1 \<and> refcount s2 b = 1"
proof -
  let ?key = "Float_value quiet_nan"
  let ?k = FLOAT_CONSTANT_SYMBOL_TYPE
  have k: "kind_of (FC v) = ?k" for v by (simp add: kind_of_def)
  from intern_new[OF wf_agent_initial room_initial nan_never_found[OF wf_agent_initial quiet_nan_is_nan]]
  obtain a s1 pool unused ht where
    1: "intern initial_agent ?key = Some (a, s1)"
       "s1 = (set_table (kind_of (key_union ?key)) ht (set_pool (kind_of (key_union ?key)) pool initial_agent))
            \<lparr>next_unused := unused, current_symbol_hash_id := current_symbol_hash_id initial_agent + 137,
             symbols := (symbols initial_agent)(a \<mapsto> \<lparr>reference_count = 1,
                 hash_id = current_symbol_hash_id initial_agent + 137, tc_num = 0, un = key_union ?key\<rparr>)\<rparr>"
       "set (table_items ht) = insert a (set (live_symbols initial_agent (kind_of (key_union ?key))))"
       "wf_agent s1" "largest_count s1 \<le> Suc (largest_count initial_agent)"
    by blast
  have room1: "largest_count s1 < 2 ^ 32" using 1(5) by (simp add: largest_count_initial)
  have m1: "symbols s1 a = Some \<lparr>reference_count = 1,
                 hash_id = current_symbol_hash_id initial_agent + 137, tc_num = 0, un = FC quiet_nan\<rparr>"
    using 1(2) by simp
  have l1: "a \<in> set (live_symbols s1 ?k)" using 1(2,3) by (simp add: k)
  from intern_new[OF 1(4) room1 nan_never_found[OF 1(4) quiet_nan_is_nan]]
  obtain b s2 pool2 unused2 ht2 where
    2: "intern s1 ?key = Some (b, s2)" "symbols s1 b = None"
       "s2 = (set_table (kind_of (key_union ?key)) ht2 (set_pool (kind_of (key_union ?key)) pool2 s1))
            \<lparr>next_unused := unused2, current_symbol_hash_id := current_symbol_hash_id s1 + 137,
             symbols := (symbols s1)(b \<mapsto> \<lparr>reference_count = 1,
                 hash_id = current_symbol_hash_id s1 + 137, tc_num = 0, un = key_union ?key\<rparr>)\<rparr>"
       "set (table_items ht2) = insert b (set (live_symbols s1 (kind_of (key_union ?key))))"
    by blast
  have ne: "b \<noteq> a" using 2(2) m1 by auto
  have m2a: "symbols s2 a = symbols s1 a" using 2(3) ne by simp
  have m2b: "symbols s2 b = Some \<lparr>reference_count = 1,
                 hash_id = current_symbol_hash_id s1 + 137, tc_num = 0, un = FC quiet_nan\<rparr>"
    using 2(3) by simp
  have l2: "a \<in> set (live_symbols s2 ?k)" "b \<in> set (live_symbols s2 ?k)"
    using 2(3,4) l1 by (simp_all add: k)
  show ?thesis
    apply (rule exI[of _ a], rule exI[of _ b], rule exI[of _ s1], rule exI[of _ s2])
    using 1(1) 2(1) ne l1 l2 m1 m2a m2b by (simp add: refcount_def)
qed

text \<open>
  Claim C4, as amended.  In a well-formed agent with fewer than \<open>2\<^sup>3\<^sup>2\<close> symbols per
  table, for every key of the four interned kinds that is not a NaN: when a live symbol
  is stored under that key, interning the key returns that symbol and changes nothing but
  its reference count, which grows by one (third part); the same holds for every key and
  live symbol that the lookup takes for the same, which adds the two zeros of the floats
  (first part).  And for every name that is not yet in the table of symbolic constants, so
  for \<open>state\<close>: interning it twice returns the same symbol both times and leaves its
  reference count at 2; one release leaves it at 1 and \<open>find_sym_constant\<close> still
  finds it; a second release removes it and \<open>find_sym_constant\<close> returns \<open>NIL\<close>.
\<close>

theorem intern_idempotent:
  assumes "wf_agent s" and "largest_count s < 2 ^ 32"
  shows "(\<forall>key a sy.
            a \<in> set (live_symbols s (kind_of (key_union key))) \<and> symbols s a = Some sy \<and>
            same_key (key_union key) (un sy) \<longrightarrow>
            intern s key =
              Some (a, s\<lparr>symbols := (symbols s)(a \<mapsto> sy\<lparr>reference_count := reference_count sy + 1\<rparr>)\<rparr>)) \<and>
         (\<forall>name. find_sym_constant s name = Some None \<longrightarrow>
            (\<exists>a s1 s2 s3 s4.
               make_sym_constant s name = Some (a, s1) \<and>
               make_sym_constant s1 name = Some (a, s2) \<and> refcount s2 a = 2 \<and>
               symbol_remove_ref s2 a = Some s3 \<and> refcount s3 a = 1 \<and>
               find_sym_constant s3 name = Some (Some a) \<and>
               symbol_remove_ref s3 a = Some s4 \<and> find_sym_constant s4 name = Some None)) \<and>
         (\<forall>key k a sy.
            a \<in> set (live_symbols s k) \<and> symbols s a = Some sy \<and>
            stored_key (un sy) = Some key \<and> \<not> nan_key key \<longrightarrow>
            intern s key =
              Some (a, s\<lparr>symbols := (symbols s)(a \<mapsto> sy\<lparr>reference_count := reference_count sy + 1\<rparr>)\<rparr>))"
proof (intro conjI allI impI)
  fix key a sy
  assume "a \<in> set (live_symbols s (kind_of (key_union key))) \<and> symbols s a = Some sy \<and>
            same_key (key_union key) (un sy)"
  with intern_existing(2)[OF assms(1), of a key sy]
  show "intern s key =
              Some (a, s\<lparr>symbols := (symbols s)(a \<mapsto> sy\<lparr>reference_count := reference_count sy + 1\<rparr>)\<rparr>)"
    by blast
next
  fix name
  assume "find_sym_constant s name = Some None"
  then have "find_key s (Sym_constant_name name) = Some None" by simp
  from intern_twice_release_twice[OF assms this same_key_refl_names(2)] obtain a s1 s2 s3 s4 where
    "intern s (Sym_constant_name name) = Some (a, s1)"
    "intern s1 (Sym_constant_name name) = Some (a, s2)" "refcount s2 a = 2"
    "symbol_remove_ref s2 a = Some s3" "refcount s3 a = 1"
    "find_key s3 (Sym_constant_name name) = Some (Some a)"
    "symbol_remove_ref s3 a = Some s4" "find_key s4 (Sym_constant_name name) = Some None"
    by blast
  then show "\<exists>a s1 s2 s3 s4.
               make_sym_constant s name = Some (a, s1) \<and>
               make_sym_constant s1 name = Some (a, s2) \<and> refcount s2 a = 2 \<and>
               symbol_remove_ref s2 a = Some s3 \<and> refcount s3 a = 1 \<and>
               find_sym_constant s3 name = Some (Some a) \<and>
               symbol_remove_ref s3 a = Some s4 \<and> find_sym_constant s4 name = Some None"
    by (intro exI[of _ a] exI[of _ s1] exI[of _ s2] exI[of _ s3] exI[of _ s4]) simp
next
  fix key k a sy
  assume h: "a \<in> set (live_symbols s k) \<and> symbols s a = Some sy \<and>
            stored_key (un sy) = Some key \<and> \<not> nan_key key"
  then have live: "a \<in> set (table_items (table_of k s))" by (simp add: live_symbols_def)
  from wf_agent_item[OF assms(1) live] h have "kind_of (un sy) = k" by auto
  with same_key_stored[of "un sy" key] h
  have "a \<in> set (live_symbols s (kind_of (key_union key)))" "same_key (key_union key) (un sy)"
    by auto
  with intern_existing(2)[OF assms(1), of a key sy] h
  show "intern s key =
              Some (a, s\<lparr>symbols := (symbols s)(a \<mapsto> sy\<lparr>reference_count := reference_count sy + 1\<rparr>)\<rparr>)"
    by blast
qed

text \<open>
  The scenario in the freshly initialised agent, with the name \<open>state\<close>; after the
  first call the symbol is live and matches, so the second call is an instance of the
  first part.  And the float \<open>0.0\<close> interned twice, by the third part.
\<close>

theorem intern_idempotent_witness:
  "(\<exists>a s1 s2 s3 s4 sy.
     make_sym_constant initial_agent ''state'' = Some (a, s1) \<and>
     a \<in> set (live_symbols s1 SYM_CONSTANT_SYMBOL_TYPE) \<and> symbols s1 a = Some sy \<and>
     un sy = SC \<lparr>sc_name = ''state''\<rparr> \<and>
     intern s1 (Sym_constant_name ''state'') =
        Some (a, s1\<lparr>symbols := (symbols s1)(a \<mapsto> sy\<lparr>reference_count := reference_count sy + 1\<rparr>)\<rparr>) \<and>
     make_sym_constant s1 ''state'' = Some (a, s2) \<and> refcount s2 a = 2 \<and>
     symbol_remove_ref s2 a = Some s3 \<and> refcount s3 a = 1 \<and>
     find_sym_constant s3 ''state'' = Some (Some a) \<and>
     symbol_remove_ref s3 a = Some s4 \<and> find_sym_constant s4 ''state'' = Some None) \<and>
   (\<exists>a s1 s2. make_float_constant initial_agent 0 = Some (a, s1) \<and>
      a \<in> set (live_symbols s1 FLOAT_CONSTANT_SYMBOL_TYPE) \<and>
      make_float_constant s1 0 = Some (a, s2) \<and> refcount s1 a = 1 \<and> refcount s2 a = 2)"
proof (rule conjI)
  show "\<exists>a s1 s2 s3 s4 sy.
     make_sym_constant initial_agent ''state'' = Some (a, s1) \<and>
     a \<in> set (live_symbols s1 SYM_CONSTANT_SYMBOL_TYPE) \<and> symbols s1 a = Some sy \<and>
     un sy = SC \<lparr>sc_name = ''state''\<rparr> \<and>
     intern s1 (Sym_constant_name ''state'') =
        Some (a, s1\<lparr>symbols := (symbols s1)(a \<mapsto> sy\<lparr>reference_count := reference_count sy + 1\<rparr>)\<rparr>) \<and>
     make_sym_constant s1 ''state'' = Some (a, s2) \<and> refcount s2 a = 2 \<and>
     symbol_remove_ref s2 a = Some s3 \<and> refcount s3 a = 1 \<and>
     find_sym_constant s3 ''state'' = Some (Some a) \<and>
     symbol_remove_ref s3 a = Some s4 \<and> find_sym_constant s4 ''state'' = Some None"
  proof -
    let ?key = "Sym_constant_name ''state''"
    have absent: "find_sym_constant initial_agent ''state'' = Some None"
      using find_key_initial[of ?key] by simp
    from intern_idempotent[OF wf_agent_initial room_initial] absent
    obtain a s1 s2 s3 s4 where
      sc: "make_sym_constant initial_agent ''state'' = Some (a, s1)"
          "make_sym_constant s1 ''state'' = Some (a, s2)" "refcount s2 a = 2"
          "symbol_remove_ref s2 a = Some s3" "refcount s3 a = 1"
          "find_sym_constant s3 ''state'' = Some (Some a)"
          "symbol_remove_ref s3 a = Some s4" "find_sym_constant s4 ''state'' = Some None"
      by blast
    from intern_new[OF wf_agent_initial room_initial find_key_initial[of ?key]] sc(1)
    obtain sy where
      new: "a \<in> set (live_symbols s1 SYM_CONSTANT_SYMBOL_TYPE)" "symbols s1 a = Some sy"
           "un sy = SC \<lparr>sc_name = ''state''\<rparr>" "wf_agent s1" "largest_count s1 \<le> Suc (largest_count initial_agent)"
      by (auto simp: kind_of_def)
    have room1: "largest_count s1 < 2 ^ 32" using new(5) by (simp add: largest_count_initial)
    have same: "same_key (key_union ?key) (un sy)" using new(3) by (simp add: same_key_def)
    have live: "a \<in> set (live_symbols s1 (kind_of (key_union ?key)))"
      using new(1) by (simp add: kind_of_def)
    from intern_idempotent[OF new(4) room1] live new(2) same
    have "intern s1 ?key =
          Some (a, s1\<lparr>symbols := (symbols s1)(a \<mapsto> sy\<lparr>reference_count := reference_count sy + 1\<rparr>)\<rparr>)"
      by blast
    with sc new show ?thesis by blast
  qed
next
  show "\<exists>a s1 s2. make_float_constant initial_agent 0 = Some (a, s1) \<and>
      a \<in> set (live_symbols s1 FLOAT_CONSTANT_SYMBOL_TYPE) \<and>
      make_float_constant s1 0 = Some (a, s2) \<and> refcount s1 a = 1 \<and> refcount s2 a = 2"
  proof -
    let ?key = "Float_value 0"
    let ?k = FLOAT_CONSTANT_SYMBOL_TYPE
    have k: "kind_of (FC v) = ?k" for v by (simp add: kind_of_def)
    from intern_new[OF wf_agent_initial room_initial find_key_initial[of ?key]]
    obtain a s1 pool unused ht where
      1: "intern initial_agent ?key = Some (a, s1)"
         "s1 = (set_table (kind_of (key_union ?key)) ht (set_pool (kind_of (key_union ?key)) pool initial_agent))
              \<lparr>next_unused := unused, current_symbol_hash_id := current_symbol_hash_id initial_agent + 137,
               symbols := (symbols initial_agent)(a \<mapsto> \<lparr>reference_count = 1,
                   hash_id = current_symbol_hash_id initial_agent + 137, tc_num = 0, un = key_union ?key\<rparr>)\<rparr>"
         "set (table_items ht) = insert a (set (live_symbols initial_agent (kind_of (key_union ?key))))"
         "wf_agent s1" "largest_count s1 \<le> Suc (largest_count initial_agent)"
      by blast
    let ?sy = "\<lparr>reference_count = 1 :: 64 word,
                   hash_id = current_symbol_hash_id initial_agent + 137, tc_num = 0, un = FC 0\<rparr>"
    have room1: "largest_count s1 < 2 ^ 32" using 1(5) by (simp add: largest_count_initial)
    have m1: "symbols s1 a = Some ?sy" using 1(2) by simp
    have l1: "a \<in> set (live_symbols s1 ?k)" using 1(2,3) by (simp add: k)
    have st: "stored_key (un ?sy) = Some ?key" by (simp add: stored_key_def)
    have nn: "\<not> nan_key ?key" by (simp add: nan_key_def double_is_nan_def)
    from intern_idempotent[OF 1(4) room1] l1 m1 st nn
    have "intern s1 ?key =
            Some (a, s1\<lparr>symbols := (symbols s1)(a \<mapsto> ?sy\<lparr>reference_count := reference_count ?sy + 1\<rparr>)\<rparr>)"
      by blast
    with 1(1) l1 m1 show ?thesis
      by (intro exI[of _ a] exI[of _ s1]
            exI[of _ "s1\<lparr>symbols := (symbols s1)(a \<mapsto> ?sy\<lparr>reference_count := reference_count ?sy + 1\<rparr>)\<rparr>"])
         (simp add: refcount_def)
  qed
qed

subsection \<open>Interning, then releasing\<close>

text \<open>
  Interning \<open>state\<close> in the freshly initialised agent and releasing it again leaves
  \<open>current_symbol_hash_id\<close> at 137, where it was 0, and the record in the free list of
  the pool, which was empty.
\<close>

theorem intern_release_advances_hash_id:
  "\<exists>a s1 s2.
      make_sym_constant initial_agent ''state'' = Some (a, s1) \<and>
      symbol_remove_ref s1 a = Some s2 \<and>
      current_symbol_hash_id initial_agent = 0 \<and> current_symbol_hash_id s2 = 137 \<and>
      free_list (sym_constant_pool initial_agent) = [] \<and> free_list (sym_constant_pool s2) = [0] \<and>
      s2 \<noteq> initial_agent"
proof -
  let ?key = "Sym_constant_name ''state''"
  from intern_release_fresh[OF wf_agent_initial room_initial find_key_initial[of ?key]]
  obtain a s1 s2 where
    1: "intern initial_agent ?key = Some (a, s1)" "symbol_remove_ref s1 a = Some s2"
    "current_symbol_hash_id s2 = current_symbol_hash_id initial_agent + 137"
    "\<forall>k. pool_of k s2 =
                      (if k = kind_of (key_union ?key) \<and> free_list (pool_of k initial_agent) = []
                       then \<lparr>free_list = [next_unused initial_agent]\<rparr> else pool_of k initial_agent)"
    by blast
  from 1(4) have "pool_of SYM_CONSTANT_SYMBOL_TYPE s2 = \<lparr>free_list = [0]\<rparr>"
    by (simp add: kind_of_def)
  then have p: "free_list (sym_constant_pool s2) = [0]" by (simp add: pool_of_def)
  have q: "free_list (sym_constant_pool initial_agent) = []"
    using initial_fields(1)[of SYM_CONSTANT_SYMBOL_TYPE] by (simp add: pool_of_def)
  from 1(3) have h: "current_symbol_hash_id s2 = 137" by simp
  then have "s2 \<noteq> initial_agent" by auto
  with 1(1,2) h p q show ?thesis
    by (intro exI[of _ a] exI[of _ s1] exI[of _ s2]) simp
qed

text \<open>
  Claim C8, as amended.  In a well-formed agent with fewer than \<open>2\<^sup>3\<^sup>2\<close> symbols per
  table, for every key of the four interned kinds, an intern followed by a release of the
  returned symbol succeeds, and: when the key was found, on a symbol with a reference
  count other than zero, the agent is exactly what it was; when the intern created a
  symbol, the memory and so every reference count, the symbols and the count of each of
  the five tables, and the identifier counters are what they were, while
  \<open>current_symbol_hash_id\<close> has advanced by 137, and the pools and the allocation
  frontier are what they were except when the pool of the kind had no free record: then
  the record taken at the frontier is now the one entry of its free list.
\<close>

theorem intern_release_round_trip:
  assumes "wf_agent s" and "largest_count s < 2 ^ 32"
  shows "(\<forall>key a. find_key s key = Some (Some a) \<and> refcount s a \<noteq> 0 \<longrightarrow>
            (\<exists>s1. intern s key = Some (a, s1) \<and> symbol_remove_ref s1 a = Some s)) \<and>
         (\<forall>key. find_key s key = Some None \<longrightarrow>
            (\<exists>a s1 s2.
               intern s key = Some (a, s1) \<and> symbol_remove_ref s1 a = Some s2 \<and>
               symbols s2 = symbols s \<and>
               (\<forall>k. set (live_symbols s2 k) = set (live_symbols s k) \<and>
                    count (table_of k s2) = count (table_of k s)) \<and>
               id_counter s2 = id_counter s \<and>
               current_symbol_hash_id s2 = current_symbol_hash_id s + 137 \<and>
               (\<forall>k. pool_of k s2 =
                      (if k = kind_of (key_union key) \<and> free_list (pool_of k s) = []
                       then \<lparr>free_list = [next_unused s]\<rparr> else pool_of k s)) \<and>
               next_unused s2 =
                 (if free_list (pool_of (kind_of (key_union key)) s) = []
                  then Suc (next_unused s) else next_unused s)))"
proof (intro conjI allI impI)
  fix key a
  assume "find_key s key = Some (Some a) \<and> refcount s a \<noteq> 0"
  with intern_release_found[OF assms(1), of key a]
  show "\<exists>s1. intern s key = Some (a, s1) \<and> symbol_remove_ref s1 a = Some s" by blast
next
  fix key
  assume "find_key s key = Some None"
  then show "\<exists>a s1 s2.
               intern s key = Some (a, s1) \<and> symbol_remove_ref s1 a = Some s2 \<and>
               symbols s2 = symbols s \<and>
               (\<forall>k. set (live_symbols s2 k) = set (live_symbols s k) \<and>
                    count (table_of k s2) = count (table_of k s)) \<and>
               id_counter s2 = id_counter s \<and>
               current_symbol_hash_id s2 = current_symbol_hash_id s + 137 \<and>
               (\<forall>k. pool_of k s2 =
                      (if k = kind_of (key_union key) \<and> free_list (pool_of k s) = []
                       then \<lparr>free_list = [next_unused s]\<rparr> else pool_of k s)) \<and>
               next_unused s2 =
                 (if free_list (pool_of (kind_of (key_union key)) s) = []
                  then Suc (next_unused s) else next_unused s)"
    by (rule intern_release_fresh[OF assms])
qed

text \<open>
  Both cases with the name \<open>state\<close>: created in the freshly initialised agent, and
  found in the agent that has interned it once.
\<close>

theorem intern_release_round_trip_witness:
  "(\<exists>a s1 s2.
      intern initial_agent (Sym_constant_name ''state'') = Some (a, s1) \<and>
      symbol_remove_ref s1 a = Some s2 \<and> symbols s2 = symbols initial_agent \<and>
      current_symbol_hash_id s2 = 137 \<and>
      pool_of SYM_CONSTANT_SYMBOL_TYPE s2 = \<lparr>free_list = [0]\<rparr> \<and> next_unused s2 = 1) \<and>
   (\<exists>a s1 s2.
      intern initial_agent (Sym_constant_name ''state'') = Some (a, s1) \<and>
      find_key s1 (Sym_constant_name ''state'') = Some (Some a) \<and> refcount s1 a = 1 \<and>
      intern s1 (Sym_constant_name ''state'') = Some (a, s2) \<and>
      symbol_remove_ref s2 a = Some s1)"
proof
  let ?key = "Sym_constant_name ''state''"
  from intern_release_round_trip[OF wf_agent_initial room_initial] find_key_initial[of ?key]
  obtain a s1 s2 where
    "intern initial_agent ?key = Some (a, s1)" "symbol_remove_ref s1 a = Some s2"
    "symbols s2 = symbols initial_agent"
    "current_symbol_hash_id s2 = current_symbol_hash_id initial_agent + 137"
    "\<forall>k. pool_of k s2 =
                      (if k = kind_of (key_union ?key) \<and> free_list (pool_of k initial_agent) = []
                       then \<lparr>free_list = [next_unused initial_agent]\<rparr> else pool_of k initial_agent)"
    "next_unused s2 =
                 (if free_list (pool_of (kind_of (key_union ?key)) initial_agent) = []
                  then Suc (next_unused initial_agent) else next_unused initial_agent)"
    by blast
  then show "\<exists>a s1 s2.
      intern initial_agent ?key = Some (a, s1) \<and>
      symbol_remove_ref s1 a = Some s2 \<and> symbols s2 = symbols initial_agent \<and>
      current_symbol_hash_id s2 = 137 \<and>
      pool_of SYM_CONSTANT_SYMBOL_TYPE s2 = \<lparr>free_list = [0]\<rparr> \<and> next_unused s2 = 1"
    by (intro exI[of _ a] exI[of _ s1] exI[of _ s2]) (simp add: kind_of_def)
next
  let ?key = "Sym_constant_name ''state''"
  from intern_twice_release_twice[OF wf_agent_initial room_initial find_key_initial[of ?key]
      same_key_refl_names(2)]
  obtain a s1 where
    1: "intern initial_agent ?key = Some (a, s1)" "refcount s1 a = 1"
       "find_key s1 ?key = Some (Some a)"
    by blast
  from intern_new[OF wf_agent_initial room_initial find_key_initial[of ?key]] 1(1)
  have wf1: "wf_agent s1" and "largest_count s1 \<le> Suc (largest_count initial_agent)" by auto
  then have room1: "largest_count s1 < 2 ^ 32" by (simp add: largest_count_initial)
  from intern_release_round_trip[OF wf1 room1] 1(2,3)
  obtain s2 where "intern s1 ?key = Some (a, s2)" "symbol_remove_ref s2 a = Some s1"
    by (metis one_neq_zero)
  with 1 show "\<exists>a s1 s2.
      intern initial_agent ?key = Some (a, s1) \<and>
      find_key s1 ?key = Some (Some a) \<and> refcount s1 a = 1 \<and>
      intern s1 ?key = Some (a, s2) \<and> symbol_remove_ref s2 a = Some s1"
    by blast
qed

section \<open>Resetting the identifier counters: proofs\<close>

lemma std_to_string_length: "n < 10 ^ k \<Longrightarrow> 0 < k \<Longrightarrow> length (std_to_string n) \<le> k"
proof (induction k arbitrary: n)
  case 0
  then show ?case by simp
next
  case (Suc k)
  show ?case
  proof (cases "n < 10")
    case True
    then show ?thesis by (subst std_to_string.simps) simp
  next
    case False
    then have k: "0 < k" using Suc.prems by (cases k) auto
    have "n div 10 < 10 ^ k" using Suc.prems by (simp add: less_mult_imp_div_less mult.commute)
    from Suc.IH[OF this k] False show ?thesis by (subst std_to_string.simps) simp
  qed
qed

lemma std_to_string_word: "length (std_to_string (unat (w :: 64 word))) \<le> 20"
proof -
  have "unat w < 2 ^ 64" using unsigned_less[of w] by simp
  also have "(2 :: nat) ^ 64 < 10 ^ 20" by simp
  finally show ?thesis by (rule std_to_string_length) simp
qed

lemma ref_info_line_eq:
  "ref_info_line sy i =
     [CHR 0x09] @ (if smem_lti i \<noteq> 0 then ''@'' else [])
        @ [name_letter i] @ std_to_string (unat (name_number i))
        @ '' --> '' @ std_to_string (unat (reference_count sy)) @ [CHR 0x0A]"
  unfolding ref_info_line_def
  using std_to_string_word[of "name_number i"] std_to_string_word[of "reference_count sy"]
  by (intro take_all) simp

lemma all_ids_Cons:
  "all_ids mem (a # items) = ((\<exists>sy i. mem a = Some sy \<and> un sy = ID i) \<and> all_ids mem items)"
  by (simp add: all_ids_def)

lemma count_ltis:
  "all_ids (symbols s) items \<Longrightarrow>
   do_for_all_items (smem_count_ltis (symbols s)) items c =
     Some (c + of_nat (length (filter (long_term s) items)))"
proof (induction items arbitrary: c)
  case Nil
  then show ?case by simp
next
  case (Cons a items)
  from Cons.prems obtain sy i where a: "symbols s a = Some sy" "un sy = ID i"
    and rest: "all_ids (symbols s) items" by (auto simp: all_ids_Cons)
  show ?case
    using a Cons.IH[OF rest] by (simp add: smem_count_ltis_def long_term_def)
qed

lemma print_refs:
  "all_ids (symbols s) items \<Longrightarrow>
   do_for_all_items (print_identifier_ref_info (symbols s) to_file) items (out, ids) =
     Some (out @ map (\<lambda>a. [CHR 0x09] @ spec_leak_line s a @ [CHR 0x0A])
                   (filter (\<lambda>a. refcount s a \<noteq> 0) items),
           if to_file
           then ids @ concat (map (\<lambda>a. [CHR 0x09] @ spec_leak_line s a @ [CHR 0x0A])
                                (filter (\<lambda>a. refcount s a \<noteq> 0) items))
           else ids)"
proof (induction items arbitrary: out ids)
  case Nil
  then show ?case by simp
next
  case (Cons a items)
  from Cons.prems obtain sy i where a: "symbols s a = Some sy" "un sy = ID i"
    and rest: "all_ids (symbols s) items" by (auto simp: all_ids_Cons)
  have line: "ref_info_line sy i = [CHR 0x09] @ spec_leak_line s a @ [CHR 0x0A]"
    using a by (simp add: ref_info_line_eq spec_leak_line_def identifier_name_def long_term_def
        refcount_def)
  have held: "(0 < reference_count sy) = (refcount s a \<noteq> 0)"
    using a by (simp add: refcount_def word_neq_0_conv)
  show ?case
    using a Cons.IH[OF rest] line held
    by (simp add: print_identifier_ref_info_def)
qed

lemma identifiers_all_ids:
  assumes "wf_agent s"
  shows "all_ids (symbols s) (live_symbols s IDENTIFIER_SYMBOL_TYPE)"
  unfolding all_ids_def live_symbols_def
proof
  fix a assume "a \<in> set (table_items (table_of IDENTIFIER_SYMBOL_TYPE s))"
  from wf_agent_item[OF assms this] obtain sy where
    "symbols s a = Some sy" "kind_of (un sy) = IDENTIFIER_SYMBOL_TYPE" by blast
  then show "\<exists>sy i. symbols s a = Some sy \<and> un sy = ID i"
    by (cases "un sy") (simp_all add: kind_of_def)
qed

lemma filter_length_all:
  "(length (filter P xs) = length xs) = (\<forall>x \<in> set xs. P x)"
proof (induction xs)
  case Nil
  then show ?case by simp
next
  case (Cons x xs)
  have "length (filter P xs) \<le> length xs" by simp
  then have "length (filter P xs) \<noteq> Suc (length xs)" by arith
  with Cons show ?case by auto
qed

lemma leak_test:
  assumes "length items < 2 ^ 64"
  shows "((of_nat (length items) :: 64 word) \<noteq> 0 + of_nat (length (filter P items)))
           = (\<exists>a \<in> set items. \<not> P a)"
proof -
  have le: "length (filter P items) \<le> length items" by simp
  then have lt: "length (filter P items) < 2 ^ 64" using assms by (rule le_less_trans)
  have a: "take_bit LENGTH(64) (length items) = length items"
    using assms by (intro take_bit_nat_eq_self) simp
  have b: "take_bit LENGTH(64) (length (filter P items)) = length (filter P items)"
    using lt by (intro take_bit_nat_eq_self) simp
  have "((of_nat (length items) :: 64 word) = of_nat (length (filter P items)))
          = (length items = length (filter P items))"
    unfolding word_of_nat_eq_iff a b ..
  then have "((of_nat (length items) :: 64 word) \<noteq> 0 + of_nat (length (filter P items)))
          = (length (filter P items) \<noteq> length items)"
    by (simp only: add_0_left) metis
  also have "\<dots> = (\<exists>a \<in> set items. \<not> P a)"
    unfolding filter_length_all by blast
  finally show ?thesis .
qed

lemma install_symbol_env:
  assumes "install_symbol u s = Some (a, s')"
  shows "fopen_succeeds s' = fopen_succeeds s" "printed s' = printed s"
    "leaked_ids_txt s' = leaked_ids_txt s" "smem_connected s' = smem_connected s"
  using assms
  by (auto simp: install_symbol_def Let_def split: prod.splits Option.bind_splits)

lemma make_new_identifier_env:
  assumes "wf_agent s" "make_new_identifier s letter lvl number = Some (a, s')"
  shows "fopen_succeeds s' = fopen_succeeds s" "printed s' = printed s"
    "leaked_ids_txt s' = leaked_ids_txt s"
  using install_symbol_env[OF assms(2)[unfolded make_new_identifier_generic[OF wf_agentD(6)[OF assms(1)]]]]
  by simp_all

lemma reset_id_counters_spec:
  assumes wf: "wf_agent s" and room: "largest_count s < 2 ^ 32"
  defines "items \<equiv> live_symbols s IDENTIFIER_SYMBOL_TYPE"
  defines "dump \<equiv> map (\<lambda>a. [CHR 0x09] @ spec_leak_line s a @ [CHR 0x0A])
                     (filter (\<lambda>a. refcount s a \<noteq> 0) items)"
  shows "reset_id_counters s =
     Some (if \<exists>a \<in> set items. \<not> long_term s a
           then (False, if fopen_succeeds s
                        then s\<lparr>printed := printed s @ leak_warning @ dump @ dump,
                               leaked_ids_txt := Some (concat dump)\<rparr>
                        else s\<lparr>printed := printed s @ leak_warning @ dump\<rparr>)
           else (True, s\<lparr>id_counter := replicate 26 1,
                          smem_id_resets := (if smem_connected s then smem_id_resets s + 1
                                             else smem_id_resets s)\<rparr>))"
proof -
  have ids: "all_ids (symbols s) items" unfolding items_def by (rule identifiers_all_ids[OF wf])
  have t: "concat (buckets (identifier_hash_table s)) = items"
    by (simp add: items_def live_symbols_def table_of_def table_items_def)
  have c: "count (identifier_hash_table s) = length items"
    using wf_agentD(1)[OF wf, of IDENTIFIER_SYMBOL_TYPE]
    by (simp add: wf_hash_table_def items_def live_symbols_def table_of_def)
  have "length items < 2 ^ 32"
    using count_le_largest[of IDENTIFIER_SYMBOL_TYPE s] room c by (simp add: table_of_def)
  also have "(2 :: nat) ^ 32 < 2 ^ 64" by simp
  finally have lt: "length items < 2 ^ 64" .
  have empty: "length items = 0 \<Longrightarrow> \<not> (\<exists>a \<in> set items. \<not> long_term s a)" by simp
  note leak = leak_test[OF lt, of "long_term s"]
  show ?thesis
  proof (cases "\<exists>a \<in> set items. \<not> long_term s a")
    case True
    then have ne: "length items \<noteq> 0" by auto
    have l: "((of_nat (length items) :: 64 word) \<noteq> 0 + of_nat (length (filter (long_term s) items)))"
      using leak True by simp
    show ?thesis
      unfolding reset_id_counters_def do_for_all_items_in_hash_table_def t c
        count_ltis[OF ids] print_refs[OF ids] dump_def[symmetric]
      using True ne l by simp
  next
    case False
    have l: "\<not> ((of_nat (length items) :: 64 word) \<noteq> 0 + of_nat (length (filter (long_term s) items)))"
      using leak False by simp
    show ?thesis
      unfolding reset_id_counters_def do_for_all_items_in_hash_table_def t c
        count_ltis[OF ids]
      using False l by simp
  qed
qed

lemma singleton_list: "distinct xs \<Longrightarrow> set xs = {a} \<Longrightarrow> xs = [a]"
  by (cases xs) (auto simp: insert_eq_iff dest: subset_singletonD)

lemma one_S5_agent:
  "\<exists>a s1. run_ops initial_agent one_S5 = Some s1 \<and> wf_agent s1 \<and> largest_count s1 < 2 ^ 32 \<and>
          live_symbols s1 IDENTIFIER_SYMBOL_TYPE = [a] \<and> \<not> long_term s1 a \<and>
          refcount s1 a = 1 \<and> spec_leak_line s1 a = ''S5 --> 1'' \<and> fopen_succeeds s1 \<and>
          id_counter s1 = (replicate 26 1)[18 := 6]"
proof -
  let ?ident = "\<lparr>name_letter = CHR ''S'', name_number = 5 :: 64 word, level = 1 :: nat,
                  promotion_level = 1 :: nat, smem_lti = 0 :: 64 word\<rparr>"
  have c0: "id_counter initial_agent = replicate 26 1"
    by (simp add: initial_agent_def)
  from make_new_identifier_spec [OF wf_agent_initial room_initial, of "CHR ''S''" 1 5]
  obtain a s1 where
    1: "make_new_identifier initial_agent CHR ''S'' 1 5 = Some (a, s1)"
       "symbols s1 = (symbols initial_agent)(a \<mapsto> \<lparr>reference_count = 1,
            hash_id = current_symbol_hash_id initial_agent + 137, tc_num = 0, un = ID ?ident\<rparr>)"
       "set (live_symbols s1 IDENTIFIER_SYMBOL_TYPE) = insert a (set (live_symbols initial_agent IDENTIFIER_SYMBOL_TYPE))"
       "id_counter s1 = (replicate 26 1)[18 := 6]"
       "wf_agent s1" "largest_count s1 \<le> Suc (largest_count initial_agent)"
    by (auto simp: letter_S c0 counted_def)
  from 1(6) have room1: "largest_count s1 < 2 ^ 32" by (simp add: largest_count_initial)
  have run: "run_ops initial_agent one_S5 = Some s1" using 1(1) by (simp add: one_S5_def)
  have "distinct (live_symbols s1 IDENTIFIER_SYMBOL_TYPE)"
    using wf_agentD(1)[OF 1(5), of IDENTIFIER_SYMBOL_TYPE]
    by (simp add: wf_hash_table_def live_symbols_def)
  then have live: "live_symbols s1 IDENTIFIER_SYMBOL_TYPE = [a]"
    using 1(3) by (intro singleton_list) simp_all
  have digits: "std_to_string 5 = ''5''" "std_to_string (Suc 0) = ''1''"
    by (simp_all add: std_to_string.simps digit_char_def)
  have nl: "\<not> long_term s1 a" using 1(2) by (simp add: long_term_def)
  have rc: "refcount s1 a = 1" using 1(2) by (simp add: refcount_def)
  have line: "spec_leak_line s1 a = ''S5 --> 1''"
    using 1(2) nl rc by (simp add: spec_leak_line_def identifier_name_def digits)
  have fo: "fopen_succeeds s1"
    using make_new_identifier_env(1)[OF wf_agent_initial 1(1)]
    by (simp add: initial_agent_def blank_agent_def)
  from run 1(5) room1 live nl rc line fo 1(4) show ?thesis by blast
qed

text \<open>
  With the one identifier \<open>S5\<close>, held once and not long-term, the file is the one
  line \<open>S5 --> 1\<close> behind a tab character.
\<close>

theorem leaked_ids_lines_start_with_tab:
  "\<exists>s1 s'. run_ops initial_agent one_S5 = Some s1 \<and>
       reset_id_counters s1 = Some (False, s') \<and>
       leaked_ids_txt s' = Some ([CHR 0x09] @ ''S5 --> 1'' @ [CHR 0x0A]) \<and>
       leaked_ids_txt s' \<noteq> Some (''S5 --> 1'' @ [CHR 0x0A])"
proof -
  from one_S5_agent obtain a s1 where
    1: "run_ops initial_agent one_S5 = Some s1" "wf_agent s1" "largest_count s1 < 2 ^ 32"
       "live_symbols s1 IDENTIFIER_SYMBOL_TYPE = [a]" "\<not> long_term s1 a"
       "refcount s1 a = 1" "spec_leak_line s1 a = ''S5 --> 1''" "fopen_succeeds s1"
    by blast
  have "reset_id_counters s1 =
          Some (False, s1\<lparr>printed := printed s1 @ leak_warning
                              @ [[CHR 0x09] @ ''S5 --> 1'' @ [CHR 0x0A]]
                              @ [[CHR 0x09] @ ''S5 --> 1'' @ [CHR 0x0A]],
                           leaked_ids_txt := Some ([CHR 0x09] @ ''S5 --> 1'' @ [CHR 0x0A])\<rparr>)"
    unfolding reset_id_counters_spec[OF 1(2,3)] using 1(4-8) by simp
  with 1(1) show ?thesis by simp
qed

text \<open>
  Claim C3, as amended.  In a well-formed agent with fewer than \<open>2\<^sup>3\<^sup>2\<close> symbols per
  table \<open>reset_id_counters\<close> returns, and it returns success exactly when every live
  identifier is long-term (or there is none); then every counter is 1.  When it returns
  failure the counters are what they were, and if \<open>leaked-ids.txt\<close> could be opened,
  it holds, in the order of the table, one line for each live identifier with a reference
  count above zero: a tab character, then \<open>[@]<letter><number> --> <refcount>\<close> with the
  \<open>@\<close> exactly for a long-term identifier, then the end of the line.
\<close>

theorem reset_id_counters_leak_report:
  assumes "wf_agent s" and "largest_count s < 2 ^ 32"
  shows "\<exists>ok s'.
           reset_id_counters s = Some (ok, s') \<and>
           ok = (\<forall>a \<in> set (live_symbols s IDENTIFIER_SYMBOL_TYPE). long_term s a) \<and>
           (ok \<longrightarrow> id_counter s' = replicate 26 1) \<and>
           (\<not> ok \<longrightarrow>
              id_counter s' = id_counter s \<and>
              (fopen_succeeds s \<longrightarrow>
                 leaked_ids_txt s' =
                   Some (concat (map (\<lambda>a. [CHR 0x09] @ spec_leak_line s a @ [CHR 0x0A])
                                  (filter (\<lambda>a. refcount s a \<noteq> 0)
                                     (live_symbols s IDENTIFIER_SYMBOL_TYPE))))))"
proof (cases "\<exists>a \<in> set (live_symbols s IDENTIFIER_SYMBOL_TYPE). \<not> long_term s a")
  case True
  show ?thesis
    unfolding reset_id_counters_spec[OF assms]
    using True by (cases "fopen_succeeds s") auto
next
  case False
  show ?thesis
    unfolding reset_id_counters_spec[OF assms]
    using False by auto
qed

text \<open>
  The refusal with the one identifier \<open>S5\<close>, whose counter stays at 6, and the reset
  in the freshly initialised agent.
\<close>

theorem reset_id_counters_leak_report_witness:
  "(\<exists>s1 s'. run_ops initial_agent one_S5 = Some s1 \<and>
       reset_id_counters s1 = Some (False, s') \<and> id_counter s' = id_counter s1 \<and>
       id_counter s1 ! 18 = 6 \<and>
       leaked_ids_txt s' = Some ([CHR 0x09] @ ''S5 --> 1'' @ [CHR 0x0A])) \<and>
   (\<exists>s'. reset_id_counters initial_agent = Some (True, s') \<and> id_counter s' = replicate 26 1)"
proof
  from one_S5_agent obtain a s1 where
    1: "run_ops initial_agent one_S5 = Some s1" "wf_agent s1" "largest_count s1 < 2 ^ 32"
       "live_symbols s1 IDENTIFIER_SYMBOL_TYPE = [a]" "\<not> long_term s1 a"
       "refcount s1 a = 1" "spec_leak_line s1 a = ''S5 --> 1''" "fopen_succeeds s1"
       "id_counter s1 = (replicate 26 1)[18 := 6]"
    by blast
  from reset_id_counters_leak_report[OF 1(2,3)] 1(4-8)
  obtain s' where "reset_id_counters s1 = Some (False, s')" "id_counter s' = id_counter s1"
    "leaked_ids_txt s' = Some ([CHR 0x09] @ ''S5 --> 1'' @ [CHR 0x0A])"
    by auto
  with 1(1,9) show "\<exists>s1 s'. run_ops initial_agent one_S5 = Some s1 \<and>
       reset_id_counters s1 = Some (False, s') \<and> id_counter s' = id_counter s1 \<and>
       id_counter s1 ! 18 = 6 \<and>
       leaked_ids_txt s' = Some ([CHR 0x09] @ ''S5 --> 1'' @ [CHR 0x0A])"
    by (intro exI[of _ s1] exI[of _ s']) simp
next
  from reset_id_counters_leak_report[OF wf_agent_initial room_initial]
  show "\<exists>s'. reset_id_counters initial_agent = Some (True, s') \<and> id_counter s' = replicate 26 1"
    by auto
qed

section \<open>The rule namer: proofs\<close>

subsection \<open>Generated names\<close>

lemma gen_absent:
  assumes "find_sym_constant s (numbered_name prefix c) = Some None"
  shows "generate_new_sym_constant s prefix c =
           map_option (\<lambda>(a, s'). (a, c + 1, s')) (make_sym_constant s (numbered_name prefix c))"
  using assms
  by (subst generate_new_sym_constant.simps)
     (simp add: numbered_name_def split: option.splits)

lemma gen_present:
  assumes "find_sym_constant s (numbered_name prefix c) = Some (Some b)"
  shows "generate_new_sym_constant s prefix c = generate_new_sym_constant s prefix (c + 1)"
  using assms
  by (subst generate_new_sym_constant.simps) (simp add: numbered_name_def)

lemma gen_skip:
  "(\<And>j. j < n \<Longrightarrow> \<exists>b. find_sym_constant s (numbered_name prefix (c + of_nat j)) = Some (Some b)) \<Longrightarrow>
   generate_new_sym_constant s prefix c = generate_new_sym_constant s prefix (c + of_nat n)"
proof (induction n arbitrary: c)
  case 0
  then show ?case by simp
next
  case (Suc n)
  from Suc.prems[of 0] obtain b where "find_sym_constant s (numbered_name prefix c) = Some (Some b)"
    by auto
  then have 1: "generate_new_sym_constant s prefix c = generate_new_sym_constant s prefix (c + 1)"
    by (rule gen_present)
  have "generate_new_sym_constant s prefix (c + 1) =
          generate_new_sym_constant s prefix (c + 1 + of_nat n)"
  proof (rule Suc.IH)
    fix j assume "j < n"
    then have "Suc j < Suc n" by simp
    from Suc.prems[OF this]
    show "\<exists>b. find_sym_constant s (numbered_name prefix (c + 1 + of_nat j)) = Some (Some b)"
      by (simp add: add.assoc)
  qed
  moreover have "c + 1 + of_nat n = c + of_nat (Suc n)" by simp
  ultimately show ?case using 1 by (simp only:)
qed

lemma make_sym_constant_new:
  assumes wf: "wf_agent s" and room: "largest_count s < 2 ^ 32"
    and absent: "find_sym_constant s name = Some None"
  shows "\<exists>a s'. make_sym_constant s name = Some (a, s') \<and> symbols s a = None \<and>
           symbols s' = (symbols s)(a \<mapsto> \<lparr>reference_count = 1,
                 hash_id = current_symbol_hash_id s + 137, tc_num = 0,
                 un = SC \<lparr>sc_name = name\<rparr>\<rparr>) \<and>
           find_sym_constant s' name = Some (Some a) \<and>
           wf_agent s' \<and> largest_count s' \<le> Suc (largest_count s)"
proof -
  let ?key = "Sym_constant_name name"
  let ?n = "\<lparr>reference_count = 1, hash_id = current_symbol_hash_id s + 137, tc_num = 0,
                 un = SC \<lparr>sc_name = name\<rparr>\<rparr>"
  from absent have "find_key s ?key = Some None" by simp
  from intern_new[OF wf room this] obtain a s1 where
    1: "intern s ?key = Some (a, s1)" "symbols s a = None"
       "symbols s1 = (symbols s)(a \<mapsto> ?n)"
       "set (live_symbols s1 (kind_of (key_union ?key))) = insert a (set (live_symbols s (kind_of (key_union ?key))))"
       "wf_agent s1" "largest_count s1 \<le> Suc (largest_count s)"
    by (auto simp: live_symbols_def)
  have m1: "symbols s1 a = Some ?n" using 1(3) by simp
  have a1: "a \<in> set (live_symbols s1 (kind_of (key_union ?key)))" using 1(4) by simp
  have same1: "same_key (key_union ?key) (un ?n)" by (simp add: same_key_def)
  from intern_existing(1)[OF 1(5) a1 m1 same1]
  have "find_sym_constant s1 name = Some (Some a)" by simp
  with 1 show ?thesis by (intro exI[of _ a] exI[of _ s1]) simp
qed

lemma gen_result:
  assumes wf: "wf_agent s" and room: "largest_count s < 2 ^ 32"
    and present: "\<And>j. j < n \<Longrightarrow>
        \<exists>b. find_sym_constant s (numbered_name prefix (c + of_nat j)) = Some (Some b)"
    and absent: "find_sym_constant s (numbered_name prefix (c + of_nat n)) = Some None"
  shows "\<exists>a s'. generate_new_sym_constant s prefix c = Some (a, c + of_nat n + 1, s') \<and>
           symbols s a = None \<and>
           symbols s' = (symbols s)(a \<mapsto> \<lparr>reference_count = 1,
                 hash_id = current_symbol_hash_id s + 137, tc_num = 0,
                 un = SC \<lparr>sc_name = numbered_name prefix (c + of_nat n)\<rparr>\<rparr>) \<and>
           find_sym_constant s' (numbered_name prefix (c + of_nat n)) = Some (Some a) \<and>
           wf_agent s' \<and> largest_count s' \<le> Suc (largest_count s)"
proof -
  from make_sym_constant_new[OF wf room absent] obtain a s' where
    1: "make_sym_constant s (numbered_name prefix (c + of_nat n)) = Some (a, s')"
       "symbols s a = None"
       "symbols s' = (symbols s)(a \<mapsto> \<lparr>reference_count = 1,
                 hash_id = current_symbol_hash_id s + 137, tc_num = 0,
                 un = SC \<lparr>sc_name = numbered_name prefix (c + of_nat n)\<rparr>\<rparr>)"
       "find_sym_constant s' (numbered_name prefix (c + of_nat n)) = Some (Some a)"
       "wf_agent s'" "largest_count s' \<le> Suc (largest_count s)"
    by blast
  have "generate_new_sym_constant s prefix c = generate_new_sym_constant s prefix (c + of_nat n)"
    by (rule gen_skip) (rule present)
  then have "generate_new_sym_constant s prefix c = Some (a, c + of_nat n + 1, s')"
    by (simp add: gen_absent[OF absent] 1(1))
  with 1 show ?thesis by blast
qed

lemma generate_numbered:
  assumes "\<not> ebc_settings e SETTING_EBC_LEARNING_ON \<or> naming_style e = numberedFormat"
  shows "generate_name_for_new_rule e =
     map_option (\<lambda>(a, counter, s). (a, set_rule_naming_counter counter (e\<lparr>symbolManager := s\<rparr>)))
       (generate_new_sym_constant (symbolManager e) (rule_name_prefix e)
          (increment_counter (rule_naming_counter e)))"
proof (cases "generate_new_sym_constant (symbolManager e) (rule_name_prefix e)
          (increment_counter (rule_naming_counter e))")
  case None
  with assms show ?thesis
    by (auto simp: generate_name_for_new_rule_def rule_name_prefix_def rule_naming_counter_def)
next
  case (Some r)
  obtain a counter s where r: "r = (a, counter, s)" by (cases r)
  from Some assms show ?thesis unfolding r
    by (auto simp: generate_name_for_new_rule_def rule_name_prefix_def rule_naming_counter_def
        set_rule_naming_counter_def)
qed

lemma sym_constant_name_new [simp]:
  "symbols s' = (symbols s)(a \<mapsto> \<lparr>reference_count = r, hash_id = h, tc_num = t,
                   un = SC \<lparr>sc_name = name\<rparr>\<rparr>) \<Longrightarrow> sym_constant_name s' a = Some name"
  by (simp add: sym_constant_name_def)

lemma numbered_rule_name:
  assumes wf: "wf_agent (symbolManager e)" and room: "largest_count (symbolManager e) < 2 ^ 32"
    and sel: "\<not> ebc_settings e SETTING_EBC_LEARNING_ON \<or> naming_style e = numberedFormat"
    and present: "\<And>j. j < n \<Longrightarrow>
        \<exists>b. find_sym_constant (symbolManager e)
               (numbered_name (rule_name_prefix e)
                  (increment_counter (rule_naming_counter e) + of_nat j)) = Some (Some b)"
    and absent: "find_sym_constant (symbolManager e)
               (numbered_name (rule_name_prefix e)
                  (increment_counter (rule_naming_counter e) + of_nat n)) = Some None"
  shows "\<exists>a s'. generate_name_for_new_rule e =
             Some (a, set_rule_naming_counter
                        (increment_counter (rule_naming_counter e) + of_nat n + 1)
                        (e\<lparr>symbolManager := s'\<rparr>)) \<and>
           symbols (symbolManager e) a = None \<and>
           sym_constant_name s' a =
             Some (numbered_name (rule_name_prefix e)
                     (increment_counter (rule_naming_counter e) + of_nat n)) \<and>
           refcount s' a = 1 \<and>
           find_sym_constant s' (numbered_name (rule_name_prefix e)
                     (increment_counter (rule_naming_counter e) + of_nat n)) = Some (Some a) \<and>
           wf_agent s'"
proof -
  from gen_result[OF wf room present absent] obtain a s' where
    1: "generate_new_sym_constant (symbolManager e) (rule_name_prefix e)
          (increment_counter (rule_naming_counter e))
        = Some (a, increment_counter (rule_naming_counter e) + of_nat n + 1, s')"
       "symbols (symbolManager e) a = None"
       "symbols s' = (symbols (symbolManager e))(a \<mapsto> \<lparr>reference_count = 1,
                 hash_id = current_symbol_hash_id (symbolManager e) + 137, tc_num = 0,
                 un = SC \<lparr>sc_name = numbered_name (rule_name_prefix e)
                     (increment_counter (rule_naming_counter e) + of_nat n)\<rparr>\<rparr>)"
       "find_sym_constant s' (numbered_name (rule_name_prefix e)
                     (increment_counter (rule_naming_counter e) + of_nat n)) = Some (Some a)"
       "wf_agent s'"
    by blast
  have rc: "refcount s' a = 1" using 1(3) by (simp add: refcount_def)
  have nm: "sym_constant_name s' a = Some (numbered_name (rule_name_prefix e)
                     (increment_counter (rule_naming_counter e) + of_nat n))"
    using 1(3) by (rule sym_constant_name_new)
  show ?thesis
    apply (rule exI[of _ a], rule exI[of _ s'])
    using 1(2,4,5) rc nm by (simp add: generate_numbered[OF sel] 1(1))
qed







lemma digits:
  "std_to_string 2 = ''2''" "std_to_string 3 = ''3''" "std_to_string 8 = ''8''"
  "std_to_string 9 = ''9''" "std_to_string 42 = ''42''"
  by (simp_all add: std_to_string.simps digit_char_def)

lemma example_names:
  "numbered_name ''chunk'' 8 = ''chunk8''" "numbered_name ''chunk'' 9 = ''chunk9''"
  by (simp_all add: numbered_name_def digits)

lemma find_sym_constant_initial: "find_sym_constant initial_agent name = Some None"
  using find_key_initial[of "Sym_constant_name name"] by simp





lemma naming_style_irrelevant:
  assumes "\<not> ebc_settings e SETTING_EBC_LEARNING_ON"
  shows "generate_name_for_new_rule (e\<lparr>naming_style := st\<rparr>) =
           map_option (\<lambda>(a, e'). (a, e'\<lparr>naming_style := st\<rparr>)) (generate_name_for_new_rule e)"
proof -
  have sel: "\<not> ebc_settings (e\<lparr>naming_style := st\<rparr>) SETTING_EBC_LEARNING_ON \<or>
             naming_style (e\<lparr>naming_style := st\<rparr>) = numberedFormat"
    and sel': "\<not> ebc_settings e SETTING_EBC_LEARNING_ON \<or> naming_style e = numberedFormat"
    using assms by simp_all
  show ?thesis
    unfolding generate_numbered[OF sel] generate_numbered[OF sel']
    by (cases "generate_new_sym_constant (symbolManager e) (rule_name_prefix e)
          (increment_counter (rule_naming_counter e))")
       (auto simp: rule_name_prefix_def rule_naming_counter_def set_rule_naming_counter_def)
qed

lemma chunk8_agent:
  "\<exists>b s1. make_sym_constant initial_agent ''chunk8'' = Some (b, s1) \<and> wf_agent s1 \<and>
          largest_count s1 < 2 ^ 32 \<and>
          find_sym_constant s1 ''chunk8'' = Some (Some b) \<and>
          find_sym_constant s1 ''chunk9'' = Some None"
proof -
  let ?key = "Sym_constant_name ''chunk8''"
  let ?key9 = "Sym_constant_name ''chunk9''"
  from intern_new[OF wf_agent_initial room_initial find_key_initial[of ?key]]
  obtain b s1 pool unused ht where
    0: "intern initial_agent ?key = Some (b, s1)"
       "s1 = (set_table (kind_of (key_union ?key)) ht (set_pool (kind_of (key_union ?key)) pool initial_agent))
            \<lparr>next_unused := unused, current_symbol_hash_id := current_symbol_hash_id initial_agent + 137,
             symbols := (symbols initial_agent)(b \<mapsto> \<lparr>reference_count = 1,
                 hash_id = current_symbol_hash_id initial_agent + 137, tc_num = 0, un = key_union ?key\<rparr>)\<rparr>"
       "set (table_items ht) = insert b (set (live_symbols initial_agent (kind_of (key_union ?key))))"
       "wf_agent s1" "largest_count s1 \<le> Suc (largest_count initial_agent)"
    by blast
  have 1: "intern initial_agent ?key = Some (b, s1)"
       "symbols s1 = (symbols initial_agent)(b \<mapsto> \<lparr>reference_count = 1,
                 hash_id = current_symbol_hash_id initial_agent + 137, tc_num = 0,
                 un = key_union ?key\<rparr>)"
       "set (live_symbols s1 (kind_of (key_union ?key))) = {b}"
       "wf_agent s1" "largest_count s1 \<le> Suc (largest_count initial_agent)"
    using 0 by simp_all
  have room1: "largest_count s1 < 2 ^ 32" using 1(5) by (simp add: largest_count_initial)
  have live: "b \<in> set (live_symbols s1 (kind_of (key_union ?key)))" using 1(3) by simp
  let ?n = "\<lparr>reference_count = 1, hash_id = current_symbol_hash_id initial_agent + 137,
             tc_num = 0, un = key_union ?key\<rparr>"
  have m: "symbols s1 b = Some ?n" using 1(2) by simp
  have same: "same_key (key_union ?key) (un ?n)" by (simp add: same_key_def)
  have "find_key s1 ?key = Some (Some b)"
    by (rule intern_existing(1)[OF 1(4) live m same])
  then have f8: "find_sym_constant s1 ''chunk8'' = Some (Some b)" by simp
  have "find_key s1 ?key9 = Some None"
  proof -
    consider (none) "find_key s1 ?key9 = Some None" | (found) c where "find_key s1 ?key9 = Some (Some c)"
      by (rule find_key_cases[OF 1(4), of ?key9])
    then show ?thesis
    proof cases
      case none
      then show ?thesis .
    next
      case (found c)
      from find_key_SomeD[OF 1(4) found] obtain sc where
        "c \<in> set (live_symbols s1 (kind_of (key_union ?key9)))" "symbols s1 c = Some sc"
        "same_key (key_union ?key9) (un sc)" by blast
      then show ?thesis using 1(2,3) by (auto simp: kind_of_def same_key_def)
    qed
  qed
  then have f9: "find_sym_constant s1 ''chunk9'' = Some None" by simp
  from 1(1,4) room1 f8 f9 show ?thesis by auto
qed

lemma numbered_chunker_fields:
  "symbolManager (numbered_chunker\<lparr>symbolManager := s\<rparr>) = s"
  "naming_style (numbered_chunker\<lparr>symbolManager := s\<rparr>) = numberedFormat"
  "m_rule_type (numbered_chunker\<lparr>symbolManager := s\<rparr>) = ebc_chunk"
  "chunk_name_prefix (numbered_chunker\<lparr>symbolManager := s\<rparr>) = ''chunk''"
  "chunk_naming_counter (numbered_chunker\<lparr>symbolManager := s\<rparr>) = 7"
  "symbolManager numbered_chunker = initial_agent"
  "naming_style numbered_chunker = numberedFormat"
  "m_rule_type numbered_chunker = ebc_chunk"
  "chunk_name_prefix numbered_chunker = ''chunk''"
  "chunk_naming_counter numbered_chunker = 7"
  by (simp_all add: numbered_chunker_def example_chunker_def)

lemma set_rule_naming_counter_style:
  "set_rule_naming_counter c (e\<lparr>symbolManager := s\<rparr>)\<lparr>naming_style := st\<rparr> =
   set_rule_naming_counter c (e\<lparr>naming_style := st, symbolManager := s\<rparr>)"
  by (simp add: set_rule_naming_counter_def)

subsection \<open>The descriptive style\<close>




subsection \<open>The numbered style\<close>

text \<open>
  With the chunk naming counter at 7 and no name interned, the numbered style returns
  \<open>chunk8\<close>: the counter is incremented before the first name is printed.
\<close>

theorem counter_seven_names_chunk8:
  "\<exists>a e'. naming_style numbered_chunker = numberedFormat \<and>
          chunk_naming_counter numbered_chunker = 7 \<and>
          find_sym_constant (symbolManager numbered_chunker) ''chunk7'' = Some None \<and>
          generate_name_for_new_rule numbered_chunker = Some (a, e') \<and>
          sym_constant_name (symbolManager e') a = Some ''chunk8'' \<and>
          sym_constant_name (symbolManager e') a \<noteq> Some ''chunk7''"
proof -
  have sel: "\<not> ebc_settings numbered_chunker SETTING_EBC_LEARNING_ON \<or>
             naming_style numbered_chunker = numberedFormat"
    by (simp add: numbered_chunker_fields)
  have p: "rule_name_prefix numbered_chunker = ''chunk''"
    "increment_counter (rule_naming_counter numbered_chunker) = 8"
    by (simp_all add: rule_name_prefix_def rule_naming_counter_def increment_counter_def
        numbered_chunker_fields)
  have wf: "wf_agent (symbolManager numbered_chunker)"
    and room: "largest_count (symbolManager numbered_chunker) < 2 ^ 32"
    by (simp_all add: numbered_chunker_fields wf_agent_initial largest_count_initial)
  have absent: "find_sym_constant (symbolManager numbered_chunker)
               (numbered_name (rule_name_prefix numbered_chunker)
                  (increment_counter (rule_naming_counter numbered_chunker) + of_nat 0)) = Some None"
    by (simp add: numbered_chunker_fields find_sym_constant_initial)
  from numbered_rule_name[OF wf room sel _ absent]
  obtain a s' where
    "generate_name_for_new_rule numbered_chunker =
       Some (a, set_rule_naming_counter (8 + of_nat 0 + 1) (numbered_chunker\<lparr>symbolManager := s'\<rparr>))"
    "sym_constant_name s' a = Some ''chunk8''"
    unfolding p by (auto simp: example_names)
  then show ?thesis
    by (auto simp: numbered_chunker_fields find_sym_constant_initial set_rule_naming_counter_def)
qed

text \<open>
  Claim C6, as amended.  In the numbered style, for a chunk, when the names made of the
  prefix and the counter values \<open>c + 1\<close>, ..., \<open>c + n\<close> are interned and the one for
  \<open>c + n + 1\<close> is not, where \<open>c\<close> is the chunk naming counter,
  \<open>generate_name_for_new_rule\<close> returns a new symbolic constant with that last name and
  leaves the counter at \<open>c + n + 2\<close>.
\<close>

theorem numbered_chunk_name:
  assumes "wf_agent (symbolManager e)" and "largest_count (symbolManager e) < 2 ^ 32"
    and "naming_style e = numberedFormat" and "m_rule_type e = ebc_chunk"
    and "\<forall>j < n. \<exists>b. find_sym_constant (symbolManager e)
                        (numbered_name (chunk_name_prefix e) (chunk_naming_counter e + 1 + of_nat j))
                      = Some (Some b)"
    and "find_sym_constant (symbolManager e)
           (numbered_name (chunk_name_prefix e) (chunk_naming_counter e + 1 + of_nat n)) = Some None"
  shows "\<exists>a e'. generate_name_for_new_rule e = Some (a, e') \<and>
           symbols (symbolManager e) a = None \<and>
           sym_constant_name (symbolManager e') a =
             Some (numbered_name (chunk_name_prefix e) (chunk_naming_counter e + 1 + of_nat n)) \<and>
           refcount (symbolManager e') a = 1 \<and>
           find_sym_constant (symbolManager e')
             (numbered_name (chunk_name_prefix e) (chunk_naming_counter e + 1 + of_nat n))
             = Some (Some a) \<and>
           chunk_naming_counter e' = chunk_naming_counter e + 1 + of_nat n + 1"
proof -
  have p: "rule_name_prefix e = chunk_name_prefix e"
    and c: "increment_counter (rule_naming_counter e) = chunk_naming_counter e + 1"
    using assms(4) by (simp_all add: rule_name_prefix_def rule_naming_counter_def increment_counter_def)
  have sel: "\<not> ebc_settings e SETTING_EBC_LEARNING_ON \<or> naming_style e = numberedFormat"
    using assms(3) by simp
  have present: "\<And>j. j < n \<Longrightarrow>
        \<exists>b. find_sym_constant (symbolManager e)
               (numbered_name (rule_name_prefix e)
                  (increment_counter (rule_naming_counter e) + of_nat j)) = Some (Some b)"
    using assms(5) unfolding p c by blast
  have absent: "find_sym_constant (symbolManager e)
               (numbered_name (rule_name_prefix e)
                  (increment_counter (rule_naming_counter e) + of_nat n)) = Some None"
    using assms(6) unfolding p c .
  from numbered_rule_name[OF assms(1,2) sel present absent]
  show ?thesis unfolding p c using assms(4)
    by (auto simp: set_rule_naming_counter_def)
qed

text \<open>
  With the counter at 7: \<open>chunk8\<close> in the freshly initialised agent, and \<open>chunk9\<close>
  once \<open>chunk8\<close> is interned.
\<close>

theorem numbered_chunk_name_witness:
  "(\<exists>a e'. generate_name_for_new_rule numbered_chunker = Some (a, e') \<and>
       sym_constant_name (symbolManager e') a = Some ''chunk8'' \<and> chunk_naming_counter e' = 9) \<and>
   (\<exists>b s1 a e'. make_sym_constant initial_agent ''chunk8'' = Some (b, s1) \<and>
       generate_name_for_new_rule (numbered_chunker\<lparr>symbolManager := s1\<rparr>) = Some (a, e') \<and>
       sym_constant_name (symbolManager e') a = Some ''chunk9'' \<and> chunk_naming_counter e' = 10)"
proof
  have "\<forall>j < (0 :: nat). \<exists>b. find_sym_constant (symbolManager numbered_chunker)
                        (numbered_name (chunk_name_prefix numbered_chunker)
                           (chunk_naming_counter numbered_chunker + 1 + of_nat j))
                      = Some (Some b)" by simp
  from numbered_chunk_name[of numbered_chunker 0, OF _ _ _ _ this]
  show "\<exists>a e'. generate_name_for_new_rule numbered_chunker = Some (a, e') \<and>
       sym_constant_name (symbolManager e') a = Some ''chunk8'' \<and> chunk_naming_counter e' = 9"
    by (auto simp: numbered_chunker_fields wf_agent_initial largest_count_initial
        find_sym_constant_initial example_names)
next
  from chunk8_agent obtain b s1 where
    1: "make_sym_constant initial_agent ''chunk8'' = Some (b, s1)" "wf_agent s1"
       "largest_count s1 < 2 ^ 32"
       "find_sym_constant s1 ''chunk8'' = Some (Some b)"
       "find_sym_constant s1 ''chunk9'' = Some None"
    by blast
  let ?e = "numbered_chunker\<lparr>symbolManager := s1\<rparr>"
  have present: "\<forall>j < (1 :: nat). \<exists>b. find_sym_constant (symbolManager ?e)
                        (numbered_name (chunk_name_prefix ?e) (chunk_naming_counter ?e + 1 + of_nat j))
                      = Some (Some b)"
    using 1(4) by (simp add: numbered_chunker_fields example_names)
  have absent: "find_sym_constant (symbolManager ?e)
           (numbered_name (chunk_name_prefix ?e) (chunk_naming_counter ?e + 1 + of_nat 1)) = Some None"
    using 1(5) by (simp add: numbered_chunker_fields example_names)
  from numbered_chunk_name[of ?e 1, OF _ _ _ _ present absent] 1(2,3)
  obtain a e' where "generate_name_for_new_rule ?e = Some (a, e')"
       "sym_constant_name (symbolManager e') a = Some ''chunk9''" "chunk_naming_counter e' = 10"
    by (auto simp: numbered_chunker_fields example_names)
  with 1(1) show "\<exists>b s1 a e'. make_sym_constant initial_agent ''chunk8'' = Some (b, s1) \<and>
       generate_name_for_new_rule (numbered_chunker\<lparr>symbolManager := s1\<rparr>) = Some (a, e') \<and>
       sym_constant_name (symbolManager e') a = Some ''chunk9'' \<and> chunk_naming_counter e' = 10"
    by blast
qed

subsection \<open>Learning switched off\<close>

text \<open>
  Claim C10.  Unless learning is on and the naming style is descriptive,
  \<open>generate_name_for_new_rule\<close> returns a name in the numbered format: the prefix and
  the first value of the incremented counter for which the name is not interned; and
  with learning off the result is that same symbol whatever the naming style is set to.
\<close>

theorem learning_off_numbered_format:
  assumes "wf_agent (symbolManager e)" and "largest_count (symbolManager e) < 2 ^ 32"
    and "\<not> (ebc_settings e SETTING_EBC_LEARNING_ON \<and> naming_style e = descriptiveFormat)"
    and "\<forall>j < n. \<exists>b. find_sym_constant (symbolManager e)
                        (numbered_name (rule_name_prefix e)
                           (increment_counter (rule_naming_counter e) + of_nat j))
                      = Some (Some b)"
    and "find_sym_constant (symbolManager e)
           (numbered_name (rule_name_prefix e)
              (increment_counter (rule_naming_counter e) + of_nat n)) = Some None"
  shows "\<exists>a s'. generate_name_for_new_rule e =
             Some (a, set_rule_naming_counter
                        (increment_counter (rule_naming_counter e) + of_nat n + 1)
                        (e\<lparr>symbolManager := s'\<rparr>)) \<and>
           sym_constant_name s' a =
             Some (numbered_name (rule_name_prefix e)
                     (increment_counter (rule_naming_counter e) + of_nat n)) \<and>
           find_sym_constant s' (numbered_name (rule_name_prefix e)
                     (increment_counter (rule_naming_counter e) + of_nat n)) = Some (Some a) \<and>
           (\<not> ebc_settings e SETTING_EBC_LEARNING_ON \<longrightarrow>
              (\<forall>st. generate_name_for_new_rule (e\<lparr>naming_style := st\<rparr>) =
                 Some (a, set_rule_naming_counter
                            (increment_counter (rule_naming_counter e) + of_nat n + 1)
                            (e\<lparr>naming_style := st, symbolManager := s'\<rparr>))))"
proof -
  have sel: "\<not> ebc_settings e SETTING_EBC_LEARNING_ON \<or> naming_style e = numberedFormat"
    using assms(3) by (cases "naming_style e") simp_all
  have present: "\<And>j. j < n \<Longrightarrow>
        \<exists>b. find_sym_constant (symbolManager e)
               (numbered_name (rule_name_prefix e)
                  (increment_counter (rule_naming_counter e) + of_nat j)) = Some (Some b)"
    using assms(4) by blast
  from numbered_rule_name[OF assms(1,2) sel present assms(5)] obtain a s' where
    1: "generate_name_for_new_rule e =
             Some (a, set_rule_naming_counter
                        (increment_counter (rule_naming_counter e) + of_nat n + 1)
                        (e\<lparr>symbolManager := s'\<rparr>))"
       "sym_constant_name s' a =
             Some (numbered_name (rule_name_prefix e)
                     (increment_counter (rule_naming_counter e) + of_nat n))"
       "find_sym_constant s' (numbered_name (rule_name_prefix e)
                     (increment_counter (rule_naming_counter e) + of_nat n)) = Some (Some a)"
    by blast
  have "generate_name_for_new_rule (e\<lparr>naming_style := st\<rparr>) =
                 Some (a, set_rule_naming_counter
                            (increment_counter (rule_naming_counter e) + of_nat n + 1)
                            (e\<lparr>naming_style := st, symbolManager := s'\<rparr>))"
    if "\<not> ebc_settings e SETTING_EBC_LEARNING_ON" for st
    unfolding naming_style_irrelevant[OF that] 1(1)
    by (simp add: set_rule_naming_counter_style)
  with 1 show ?thesis by blast
qed

text \<open>
  Learning off with the descriptive style configured, and learning on with the numbered
  style: \<open>chunk8\<close> both times.
\<close>

theorem learning_off_numbered_format_witness:
  "(\<exists>a e'. \<not> ebc_settings unlearning_chunker SETTING_EBC_LEARNING_ON \<and>
       naming_style unlearning_chunker = descriptiveFormat \<and>
       generate_name_for_new_rule unlearning_chunker = Some (a, e') \<and>
       sym_constant_name (symbolManager e') a = Some ''chunk8'' \<and>
       generate_name_for_new_rule (unlearning_chunker\<lparr>naming_style := numberedFormat\<rparr>)
         = Some (a, e'\<lparr>naming_style := numberedFormat\<rparr>)) \<and>
   (\<exists>a e'. ebc_settings numbered_chunker SETTING_EBC_LEARNING_ON \<and>
       naming_style numbered_chunker = numberedFormat \<and>
       generate_name_for_new_rule numbered_chunker = Some (a, e') \<and>
       sym_constant_name (symbolManager e') a = Some ''chunk8'')"
proof
  let ?e = unlearning_chunker
  have f: "symbolManager ?e = initial_agent" "\<not> ebc_settings ?e SETTING_EBC_LEARNING_ON"
    "naming_style ?e = descriptiveFormat" "rule_name_prefix ?e = ''chunk''"
    "increment_counter (rule_naming_counter ?e) = 8"
    by (simp_all add: unlearning_chunker_def example_chunker_def rule_name_prefix_def
        rule_naming_counter_def increment_counter_def)
  have present: "\<forall>j < (0 :: nat). \<exists>b. find_sym_constant (symbolManager ?e)
                        (numbered_name (rule_name_prefix ?e)
                           (increment_counter (rule_naming_counter ?e) + of_nat j))
                      = Some (Some b)" by simp
  from learning_off_numbered_format[of ?e 0, OF _ _ _ present]
  obtain a s' where
    1: "generate_name_for_new_rule ?e =
          Some (a, set_rule_naming_counter (8 + of_nat 0 + 1) (?e\<lparr>symbolManager := s'\<rparr>))"
       "sym_constant_name s' a = Some ''chunk8''"
       "\<forall>st. generate_name_for_new_rule (?e\<lparr>naming_style := st\<rparr>) =
                 Some (a, set_rule_naming_counter (8 + of_nat 0 + 1)
                            (?e\<lparr>naming_style := st, symbolManager := s'\<rparr>))"
    by (auto simp: f wf_agent_initial largest_count_initial find_sym_constant_initial
        example_names)
  show "\<exists>a e'. \<not> ebc_settings ?e SETTING_EBC_LEARNING_ON \<and>
       naming_style ?e = descriptiveFormat \<and>
       generate_name_for_new_rule ?e = Some (a, e') \<and>
       sym_constant_name (symbolManager e') a = Some ''chunk8'' \<and>
       generate_name_for_new_rule (?e\<lparr>naming_style := numberedFormat\<rparr>)
         = Some (a, e'\<lparr>naming_style := numberedFormat\<rparr>)"
    apply (rule exI[of _ a])
    apply (rule exI[of _ "set_rule_naming_counter (8 + of_nat 0 + 1) (?e\<lparr>symbolManager := s'\<rparr>)"])
    using 1 f(2,3) by (simp add: set_rule_naming_counter_def)
next
  let ?e = numbered_chunker
  have f: "symbolManager ?e = initial_agent" "ebc_settings ?e SETTING_EBC_LEARNING_ON"
    "naming_style ?e = numberedFormat" "rule_name_prefix ?e = ''chunk''"
    "increment_counter (rule_naming_counter ?e) = 8"
    by (simp_all add: numbered_chunker_def example_chunker_def rule_name_prefix_def
        rule_naming_counter_def increment_counter_def example_settings_def)
  have present: "\<forall>j < (0 :: nat). \<exists>b. find_sym_constant (symbolManager ?e)
                        (numbered_name (rule_name_prefix ?e)
                           (increment_counter (rule_naming_counter ?e) + of_nat j))
                      = Some (Some b)" by simp
  from learning_off_numbered_format[of ?e 0, OF _ _ _ present]
  obtain a s' where
    1: "generate_name_for_new_rule ?e =
          Some (a, set_rule_naming_counter (8 + of_nat 0 + 1) (?e\<lparr>symbolManager := s'\<rparr>))"
       "sym_constant_name s' a = Some ''chunk8''"
    by (auto simp: f wf_agent_initial largest_count_initial find_sym_constant_initial
        example_names)
  show "\<exists>a e'. ebc_settings ?e SETTING_EBC_LEARNING_ON \<and>
       naming_style ?e = numberedFormat \<and>
       generate_name_for_new_rule ?e = Some (a, e') \<and>
       sym_constant_name (symbolManager e') a = Some ''chunk8''"
    apply (rule exI[of _ a])
    apply (rule exI[of _ "set_rule_naming_counter (8 + of_nat 0 + 1) (?e\<lparr>symbolManager := s'\<rparr>)"])
    using 1 f(2,3) by (simp add: set_rule_naming_counter_def)
qed

end
